theory Spec2Isabelle
  imports Complex_Main
begin

section \<open>jcblock.py: junk call blocking with an AT modem\<close>

text \<open>
  A shallow embedding of \<^verbatim>\<open>src/jcblock.py\<close>. Python strings and byte strings are
  \<open>string\<close> (lists of 8-bit characters); the model is exact on ASCII text. The ordered
  \<^verbatim>\<open>dict\<close> that holds an allow or block list is an association list in insertion
  order. The file system is a map from path to file content. Clock readings
  (\<^verbatim>\<open>time.time()\<close>, \<^verbatim>\<open>time.monotonic()\<close>) are real numbers handed to the
  functions that read them. The regular expression engine of Python's \<^verbatim>\<open>re\<close> module
  is a parameter of every function that uses it: \<open>compile\<close> stands for
  \<^verbatim>\<open>re.compile(p, re.IGNORECASE)\<close> (\<open>None\<close> when it raises \<^verbatim>\<open>re.error\<close>) and
  \<open>mtch r s\<close> for \<^verbatim>\<open>r.match(s)\<close> being a match object.
\<close>

subsection \<open>Strings\<close>

definition LF :: char where
  "LF = CHR 0x0A"

definition CR :: char where
  "CR = CHR 0x0D"

text \<open>\<^verbatim>\<open>s.startswith(p)\<close>\<close>

definition startswith :: "string \<Rightarrow> string \<Rightarrow> bool" where
  "startswith s p = (take (length p) s = p)"

text \<open>The classes \<^verbatim>\<open>\w\<close> and \<^verbatim>\<open>\s\<close> of a Python 3 string pattern, on ASCII.\<close>

definition is_word :: "char \<Rightarrow> bool" where
  "is_word c = (let n = (of_char c :: nat) in
     (48 \<le> n \<and> n \<le> 57) \<or> (65 \<le> n \<and> n \<le> 90) \<or> (97 \<le> n \<and> n \<le> 122) \<or> n = 95)"

definition is_space :: "char \<Rightarrow> bool" where
  "is_space c = (let n = (of_char c :: nat) in (9 \<le> n \<and> n \<le> 13) \<or> (28 \<le> n \<and> n \<le> 32))"

text \<open>
  \<^verbatim>\<open>re.sub('^\w+\s*=\s*', '', line)\<close>: the pattern is anchored at the start, so it
  matches at most once. A word character is neither white space nor \<^verbatim>\<open>=\<close>, so the
  greedy \<^verbatim>\<open>\w+\<close> never gives a character back: the match is the longest run of word
  characters (at least one), white space, \<^verbatim>\<open>=\<close>, white space. A line without such a
  prefix is returned as it is.
\<close>

definition strip_key :: "string \<Rightarrow> string" where
  "strip_key line =
     (let r = dropWhile is_space (dropWhile is_word line) in
      if takeWhile is_word line \<noteq> [] \<and> r \<noteq> [] \<and> hd r = CHR ''=''
      then dropWhile is_space (tl r) else line)"

subsection \<open>The Caller ID accumulator of the main loop\<close>

text \<open>The four variables \<^verbatim>\<open>call_date\<close>, \<^verbatim>\<open>call_time\<close>, \<^verbatim>\<open>call_name\<close>,
  \<^verbatim>\<open>call_number\<close> of \<^verbatim>\<open>main\<close>.\<close>

record caller_id =
  call_date :: string
  call_time :: string
  call_name :: string
  call_number :: string

text \<open>Lines 119 to 122 and 224 to 227: all four variables empty.\<close>

definition no_call :: caller_id where
  "no_call = \<lparr>call_date = [], call_time = [], call_name = [], call_number = []\<rparr>"

text \<open>
  Lines 154 to 174 of \<^verbatim>\<open>main\<close>: the branch taken for one modem line. The result is
  the updated variables and whether control reaches line 177 (\<open>True\<close>) or the loop
  \<^verbatim>\<open>continue\<close>s (\<open>False\<close>). \<^verbatim>\<open>not call_date\<close> tests for the empty string. The
  \<^verbatim>\<open>last_ring\<close> bookkeeping of lines 155 to 157 only prints and is left out.
\<close>

definition caller_id_line :: "caller_id \<Rightarrow> string \<Rightarrow> caller_id \<times> bool" where
  "caller_id_line st line =
     (if startswith line ''RING'' then (st, call_date st \<noteq> [])
      else if startswith line ''DATE'' then (st\<lparr>call_date := strip_key line\<rparr>, False)
      else if startswith line ''TIME'' then (st\<lparr>call_time := strip_key line\<rparr>, False)
      else if startswith line ''NMBR'' then (st\<lparr>call_number := strip_key line\<rparr>, False)
      else if startswith line ''NAME'' then (st\<lparr>call_name := strip_key line\<rparr>, call_date st \<noteq> [])
      else (st, False))"

text \<open>
  One pass of the loop as far as the accumulator is concerned: a line that completes the
  Caller ID hands the record to the screening code (lines 177 to 222, which do not assign
  the four variables) and then clears them (lines 224 to 227).
\<close>

definition call_step :: "caller_id \<Rightarrow> string \<Rightarrow> caller_id \<times> caller_id option" where
  "call_step st line =
     (case caller_id_line st line of
        (st', True) \<Rightarrow> (no_call, Some st')
      | (st', False) \<Rightarrow> (st', None))"

text \<open>The records handed to the screening code while a list of lines is read.\<close>

fun feed :: "caller_id \<Rightarrow> string list \<Rightarrow> caller_id list" where
  "feed st [] = []"
| "feed st (line # rest) =
     (case call_step st line of
        (st', Some r) \<Rightarrow> r # feed st' rest
      | (st', None) \<Rightarrow> feed st' rest)"

subsection \<open>More string operations of Python\<close>

text \<open>\<^verbatim>\<open>s.split(sep)\<close> for a separator of one character: never an empty list.
  \<open>cur\<close> is the field being collected.\<close>

fun split_from :: "char \<Rightarrow> string \<Rightarrow> string \<Rightarrow> string list" where
  "split_from sep cur [] = [cur]"
| "split_from sep cur (c # cs) =
     (if c = sep then cur # split_from sep [] cs else split_from sep (cur @ [c]) cs)"

definition py_split :: "char \<Rightarrow> string \<Rightarrow> string list" where
  "py_split sep s = split_from sep [] s"

text \<open>\<^verbatim>\<open>s.split(sep, maxsplit)\<close>: at most \<open>maxsplit\<close> cuts, the rest stays in the last
  field.\<close>

fun splitn_from :: "char \<Rightarrow> nat \<Rightarrow> string \<Rightarrow> string \<Rightarrow> string list" where
  "splitn_from sep n cur [] = [cur]"
| "splitn_from sep 0 cur (c # cs) = [cur @ c # cs]"
| "splitn_from sep (Suc n) cur (c # cs) =
     (if c = sep then cur # splitn_from sep n [] cs else splitn_from sep (Suc n) (cur @ [c]) cs)"

definition py_splitn :: "char \<Rightarrow> nat \<Rightarrow> string \<Rightarrow> string list" where
  "py_splitn sep n s = splitn_from sep n [] s"

text \<open>\<^verbatim>\<open>sep.join(fields)\<close>\<close>

fun py_join :: "string \<Rightarrow> string list \<Rightarrow> string" where
  "py_join sep [] = []"
| "py_join sep [x] = x"
| "py_join sep (x # y # ys) = x @ sep @ py_join sep (y # ys)"

text \<open>\<^verbatim>\<open>re.sub('\n|\r', '', line)\<close>: every line feed and carriage return is removed.\<close>

definition strip_newlines :: "string \<Rightarrow> string" where
  "strip_newlines line = filter (\<lambda>c. c \<noteq> LF \<and> c \<noteq> CR) line"

text \<open>\<^verbatim>\<open>sub in s\<close> for strings and byte strings.\<close>

fun py_in :: "string \<Rightarrow> string \<Rightarrow> bool" where
  "py_in sub [] = (sub = [])"
| "py_in sub (c # cs) = (startswith (c # cs) sub \<or> py_in sub cs)"

text \<open>\<^verbatim>\<open>str(n)\<close> for an integer.\<close>

definition digit_char :: "nat \<Rightarrow> char" where
  "digit_char n = ''0123456789'' ! n"

fun digits :: "nat \<Rightarrow> string" where
  "digits n = (if n < 10 then [digit_char n] else digits (n div 10) @ [digit_char (n mod 10)])"

declare digits.simps [simp del]

definition py_str :: "int \<Rightarrow> string" where
  "py_str i = (if i < 0 then CHR ''-'' # digits (nat (- i)) else digits (nat i))"

text \<open>
  \<^verbatim>\<open>int(s)\<close> in base ten: white space around the number is dropped, one sign may lead,
  and the digits may be grouped by single underscores. \<open>None\<close> stands for
  \<^verbatim>\<open>ValueError\<close>.
\<close>

definition is_digit :: "char \<Rightarrow> bool" where
  "is_digit c = (let n = (of_char c :: nat) in 48 \<le> n \<and> n \<le> 57)"

fun grouped_digits :: "string \<Rightarrow> bool" where
  "grouped_digits [] = False"
| "grouped_digits [c] = is_digit c"
| "grouped_digits (c # d # cs) =
     (is_digit c \<and> (if d = CHR ''_'' then grouped_digits cs else grouped_digits (d # cs)))"

definition digits_value :: "string \<Rightarrow> nat" where
  "digits_value ds = foldl (\<lambda>acc c. 10 * acc + (of_char c - 48)) 0 ds"

definition py_int :: "string \<Rightarrow> int option" where
  "py_int s =
     (let t = rev (dropWhile is_space (rev (dropWhile is_space s)));
          neg = (t \<noteq> [] \<and> hd t = CHR ''-'');
          body = (if t \<noteq> [] \<and> (hd t = CHR ''-'' \<or> hd t = CHR ''+'') then tl t else t)
      in if grouped_digits body
         then Some ((if neg then - 1 else 1) * int (digits_value (filter (\<lambda>c. c \<noteq> CHR ''_'') body)))
         else None)"

text \<open>\<^verbatim>\<open>space_fill\<close>: Python's \<^verbatim>\<open>" " * k\<close> is empty for a negative \<open>k\<close>, as
  \<open>replicate\<close> is for the truncated difference.\<close>

definition space_fill :: "string \<Rightarrow> nat \<Rightarrow> string" where
  "space_fill s n = s @ '' '' @ replicate (n - length s - 1) (CHR '' '')"

subsection \<open>Allow and block lists\<close>

text \<open>
  One entry of a list: the dictionary with the keys \<^verbatim>\<open>regex\<close> (the compiled
  pattern), \<^verbatim>\<open>timestamp\<close>, \<^verbatim>\<open>count\<close>, \<^verbatim>\<open>permanent\<close> and \<^verbatim>\<open>note\<close> (here \<open>note_text\<close>: \<open>note\<close> is a keyword).
\<close>

record 'r item =
  regex :: 'r
  timestamp :: string
  count :: int
  permanent :: bool
  note_text :: string

text \<open>A list is a Python dictionary keyed by the pattern text, in insertion order.\<close>

type_synonym 'r plist = "(string \<times> 'r item) list"

text \<open>\<^verbatim>\<open>d[k] = v\<close>: an existing key keeps its place, a new key goes last.\<close>

fun dict_set :: "'k \<Rightarrow> 'v \<Rightarrow> ('k \<times> 'v) list \<Rightarrow> ('k \<times> 'v) list" where
  "dict_set k v [] = [(k, v)]"
| "dict_set k v ((k', v') # kvs) =
     (if k' = k then (k, v) # kvs else (k', v') # dict_set k v kvs)"

text \<open>\<^verbatim>\<open>del d[k]\<close> for a key that is present.\<close>

definition dict_del :: "'k \<Rightarrow> ('k \<times> 'v) list \<Rightarrow> ('k \<times> 'v) list" where
  "dict_del k kvs = filter (\<lambda>kv. fst kv \<noteq> k) kvs"

text \<open>
  \<^verbatim>\<open>match_list\<close>: the entries are tried in dictionary order; the first whose pattern
  matches gets the timestamp and one more count. The result is the list as the call
  leaves it, whether an entry matched, and the line printed.
\<close>

fun match_list :: "('r \<Rightarrow> string \<Rightarrow> bool) \<Rightarrow> 'r plist \<Rightarrow> string \<Rightarrow> string \<Rightarrow> 'r plist \<times> bool \<times> string list" where
  "match_list mtch [] s ts = ([], False, [])"
| "match_list mtch ((k, it) # rest) s ts =
     (if mtch (regex it) s
      then ((k, it\<lparr>timestamp := ts, count := count it + 1\<rparr>) # rest, True,
            [''Matched pattern '' @ [CHR 0x27] @ k @ [CHR 0x27] @ '' count '' @ py_str (count it + 1)])
      else (case match_list mtch rest s ts of (rest', b, out) \<Rightarrow> ((k, it) # rest', b, out)))"

text \<open>
  \<^verbatim>\<open>match_list_both\<close>: the number first, the name only when the number did not match
  (Python's \<^verbatim>\<open>or\<close>). The third component is what the call prints.
\<close>

definition match_list_both ::
  "('r \<Rightarrow> string \<Rightarrow> bool) \<Rightarrow> 'r plist \<Rightarrow> string \<Rightarrow> string \<Rightarrow> string \<Rightarrow> string \<Rightarrow> 'r plist \<times> bool \<times> string list" where
  "match_list_both mtch lst list_type number name ts =
     (case match_list mtch lst number ts of
        (lst1, True, out1) \<Rightarrow>
          (lst1, True, [''Checking '' @ list_type @ '' list...''] @ out1 @ [''Matched '' @ list_type @ '' list''])
      | (lst1, False, out1) \<Rightarrow>
          (case match_list mtch lst1 name ts of
             (lst2, True, out2) \<Rightarrow>
               (lst2, True,
                [''Checking '' @ list_type @ '' list...''] @ out1 @ out2 @ [''Matched '' @ list_type @ '' list''])
           | (lst2, False, out2) \<Rightarrow>
               (lst2, False, [''Checking '' @ list_type @ '' list...''] @ out1 @ out2)))"

subsection \<open>Files\<close>

text \<open>The file system: the content of every path that exists.\<close>

type_synonym files = "string \<Rightarrow> string option"

text \<open>
  Python opens the files in text mode with universal newlines: on reading, a carriage
  return with or without a line feed after it becomes one line feed.
\<close>

fun universal_newlines :: "string \<Rightarrow> string" where
  "universal_newlines [] = []"
| "universal_newlines [c] = (if c = CR then [LF] else [c])"
| "universal_newlines (c # d # cs) =
     (if c = CR then (if d = LF then LF # universal_newlines cs else LF # universal_newlines (d # cs))
      else c # universal_newlines (d # cs))"

text \<open>\<^verbatim>\<open>for line in file\<close>: each line keeps its line feed; a last line without one
  is a line too. \<open>cur\<close> is the line being collected.\<close>

fun lines_from :: "string \<Rightarrow> string \<Rightarrow> string list" where
  "lines_from cur [] = (if cur = [] then [] else [cur])"
| "lines_from cur (c # cs) =
     (if c = LF then (cur @ [c]) # lines_from [] cs else lines_from (cur @ [c]) cs)"

definition file_lines :: "string \<Rightarrow> string list" where
  "file_lines content = lines_from [] (universal_newlines content)"

text \<open>\<^verbatim>\<open>open(path, 'a')\<close> and one \<^verbatim>\<open>write\<close>: a missing file is created.\<close>

definition append_file :: "files \<Rightarrow> string \<Rightarrow> string \<Rightarrow> files" where
  "append_file fs path text = fs(path \<mapsto> (case fs path of None \<Rightarrow> [] | Some old \<Rightarrow> old) @ text)"

text \<open>The uncaught exceptions of the list functions.\<close>

datatype error = ValueError

text \<open>A loop over a list whose body may raise: the first exception ends it.\<close>

fun fold_err :: "('a \<Rightarrow> 's \<Rightarrow> error + 's) \<Rightarrow> 'a list \<Rightarrow> 's \<Rightarrow> error + 's" where
  "fold_err f [] s = Inr s"
| "fold_err f (x # xs) s = (case f x s of Inl e \<Rightarrow> Inl e | Inr s' \<Rightarrow> fold_err f xs s')"

subsection \<open>Loading a list: \<^verbatim>\<open>read_list\<close>\<close>

text \<open>
  The loop of lines 261 to 263 and 343 to 345: while the pattern ends in a backslash and
  fields are left, the backslash is dropped and the next field joined on with a
  semicolon. The result is the pattern and the fields that remain.
\<close>

fun join_escaped :: "string \<Rightarrow> string list \<Rightarrow> string \<times> string list" where
  "join_escaped rx [] = (rx, [])"
| "join_escaped rx (f # fs) =
     (if rx \<noteq> [] \<and> last rx = CHR 0x5C then join_escaped (butlast rx @ '';'' @ f) fs
      else (rx, f # fs))"

text \<open>
  The body of the loop of lines 250 to 276 for one line of the \<^verbatim>\<open>.dat\<close> file;
  \<open>now\<close> is the \<^verbatim>\<open>time.strftime("%Y-%m-%d %H:%M")\<close> of line 248. When the pattern
  does not compile, line 268 empties \<^verbatim>\<open>regex\<close> and line 269 skips the entry.
\<close>

definition dat_line :: "(string \<Rightarrow> 'r option) \<Rightarrow> string \<Rightarrow> string \<Rightarrow> 'r plist \<Rightarrow> 'r plist" where
  "dat_line compile now line0 lst =
     (let line = strip_newlines line0 in
      if startswith line ''#'' then lst
      else
        let line_list = py_split (CHR '';'') line in
        if hd line_list = [] then lst
        else
          (case join_escaped (hd line_list) (tl line_list) of
             (rx, flds) \<Rightarrow>
               (case compile rx of
                  None \<Rightarrow> lst
                | Some r \<Rightarrow>
                    if rx \<noteq> [] then
                      let flags = (if flds \<noteq> [] then hd flds else []) in
                      dict_set rx
                        \<lparr>regex = r, timestamp = now, count = 0,
                         permanent = (CHR ''p'' \<in> set flags \<or> CHR ''P'' \<in> set flags),
                         note_text = py_join '';'' (tl flds)\<rparr> lst
                    else lst)))"

fun read_dat :: "(string \<Rightarrow> 'r option) \<Rightarrow> string \<Rightarrow> string list \<Rightarrow> 'r plist \<Rightarrow> 'r plist" where
  "read_dat compile now [] lst = lst"
| "read_dat compile now (line # rest) lst = read_dat compile now rest (dat_line compile now line lst)"

text \<open>
  The body of the loop of lines 285 to 297 for one line of the match file. Line 287
  splits with \<^verbatim>\<open>maxsplit\<close> 3, line 289 wants exactly three fields. A count that is
  no integer raises \<^verbatim>\<open>ValueError\<close> at line 295.
\<close>

definition match_line :: "string \<Rightarrow> 'r plist \<Rightarrow> error + 'r plist" where
  "match_line line0 lst =
     (let line_list = py_splitn (CHR '';'') 3 (strip_newlines line0) in
      if length line_list = 3 then
        (case map_of lst (line_list ! 2) of
           None \<Rightarrow> Inr lst
         | Some it \<Rightarrow>
             (case py_int (line_list ! 1) of
                None \<Rightarrow> Inl ValueError
              | Some n \<Rightarrow>
                  Inr (dict_set (line_list ! 2) (it\<lparr>timestamp := line_list ! 0, count := n\<rparr>) lst)))
      else Inr lst)"

text \<open>\<^verbatim>\<open>read_list\<close>: a missing list file gives the empty list, a missing match file
  the entries of the list file as they are.\<close>

definition read_list :: "(string \<Rightarrow> 'r option) \<Rightarrow> string \<Rightarrow> files \<Rightarrow> string \<Rightarrow> error + 'r plist" where
  "read_list compile now fs list_file =
     (case fs list_file of
        None \<Rightarrow> Inr []
      | Some content \<Rightarrow>
          (case fs (list_file @ ''-match'') of
             None \<Rightarrow> Inr (read_dat compile now (file_lines content) [])
           | Some history \<Rightarrow>
               fold_err match_line (file_lines history) (read_dat compile now (file_lines content) [])))"

subsection \<open>Writing the match history: \<^verbatim>\<open>update_list_match\<close>\<close>

definition match_file_line :: "string \<times> 'r item \<Rightarrow> string" where
  "match_file_line e = timestamp (snd e) @ '';'' @ py_str (count (snd e)) @ '';'' @ fst e @ [LF]"

definition update_list_match :: "'r plist \<Rightarrow> files \<Rightarrow> string \<Rightarrow> files" where
  "update_list_match lst fs list_file = fs(list_file @ ''-match'' \<mapsto> concat (map match_file_line lst))"

subsection \<open>Purging: \<^verbatim>\<open>purge_list\<close>\<close>

definition day_secs :: real where
  "day_secs = 24 * 60 * 60"

text \<open>
  The body of the loop of lines 337 to 358 for one line of the list file. The state is
  the list, \<^verbatim>\<open>new_contents\<close> and \<^verbatim>\<open>file_changed\<close>. \<open>ptime\<close> stands for
  \<^verbatim>\<open>time.mktime(time.strptime(s, "%Y-%m-%d %H:%M"))\<close>, \<open>None\<close> when the timestamp
  does not parse (\<^verbatim>\<open>ValueError\<close>); \<open>now\<close> is the \<^verbatim>\<open>time.time()\<close> of line 333.
\<close>

definition purge_line ::
  "(string \<Rightarrow> real option) \<Rightarrow> real \<Rightarrow> int \<Rightarrow> string \<Rightarrow> 'r plist \<times> string \<times> bool \<Rightarrow> error + 'r plist \<times> string \<times> bool" where
  "purge_line ptime now lifetime_days line st =
     (case st of (lst, new_contents, file_changed) \<Rightarrow>
        if \<not> startswith line ''#'' then
          let line_list = py_split (CHR '';'') (strip_newlines line) in
          (case join_escaped (hd line_list) (tl line_list) of
             (rx, flds) \<Rightarrow>
               (case map_of lst rx of
                  None \<Rightarrow> Inr (lst, new_contents @ line, file_changed)
                | Some it \<Rightarrow>
                    (case ptime (timestamp it) of
                       None \<Rightarrow> Inl ValueError
                     | Some last_time \<Rightarrow>
                         if \<not> permanent it \<and> now - last_time > of_int lifetime_days * day_secs
                         then Inr (dict_del rx lst,
                                   new_contents @ (''# last blocked on '' @ timestamp it @ '' count '' @
                                     py_str (count it) @ '' #'' @ line),
                                   True)
                         else Inr (lst, new_contents @ line, file_changed))))
        else Inr (lst, new_contents @ line, file_changed))"

text \<open>
  \<^verbatim>\<open>purge_list\<close>: the list and the file system as the call leaves them. When a line
  was commented out, the old file becomes the backup (replacing an earlier one) and the
  new contents are written under the old name.
\<close>

definition purge_list ::
  "(string \<Rightarrow> real option) \<Rightarrow> real \<Rightarrow> 'r plist \<Rightarrow> files \<Rightarrow> string \<Rightarrow> int \<Rightarrow> error + 'r plist \<times> files" where
  "purge_list ptime now lst fs list_file lifetime_days =
     (case fs list_file of
        None \<Rightarrow> Inr (lst, fs)
      | Some content \<Rightarrow>
          (case fold_err (purge_line ptime now lifetime_days) (file_lines content) (lst, [], False) of
             Inl e \<Rightarrow> Inl e
           | Inr (lst', new_contents, file_changed) \<Rightarrow>
               if file_changed
               then Inr (lst', fs(list_file @ ''-backup'' \<mapsto> content, list_file \<mapsto> new_contents))
               else Inr (lst', fs)))"

subsection \<open>The modem: \<^verbatim>\<open>wait_for_star\<close> and \<^verbatim>\<open>terminate_call\<close>\<close>

text \<open>
  The modem is seen through the commands the program sends to it, in order. What
  \<^verbatim>\<open>send_command\<close> reads back is used by no caller in these functions and is not
  modelled, so a command is taken to be answered.
\<close>

definition star_bytes :: string where
  "star_bytes = [CHR 0x10, CHR ''/'', CHR 0x10, CHR ''*'', CHR 0x10, CHR ''~'']"

definition ring_bytes1 :: string where
  "ring_bytes1 = [CHR 0x10, CHR ''R'']"

definition ring_bytes2 :: string where
  "ring_bytes2 = [CHR 0x10, CHR ''r'']"

text \<open>\<^verbatim>\<open>s.replace(old, new)\<close>: the occurrences of \<open>old\<close> are replaced from the left,
  without overlap and in one pass.\<close>

function py_replace :: "string \<Rightarrow> string \<Rightarrow> string \<Rightarrow> string" where
  "py_replace [] old new = (if old = [] then new else [])"
| "py_replace (c # cs) old new =
     (if old = [] then new @ c # py_replace cs old new
      else if startswith (c # cs) old then new @ py_replace (drop (length old) (c # cs)) old new
      else c # py_replace cs old new)"
  by pat_completeness auto
termination
  by (relation "measure (\<lambda>(s, old, new). length s)") auto

text \<open>
  What one pass of the loop of lines 408 to 419 takes from outside: the clock read by
  the loop test, the result of \<^verbatim>\<open>self.read(1)\<close> (\<open>None\<close> when the read timed out
  with no byte), and the clock read at line 419 if a ring is seen in this pass.
\<close>

record tick =
  clock :: real
  rx_byte :: "char option"
  ring_clock :: real

text \<open>The body of the loop (lines 409 to 419) on \<^verbatim>\<open>read_bytes\<close>, \<^verbatim>\<open>last_ring\<close>
  and the commands sent so far.\<close>

definition star_body :: "tick \<Rightarrow> string \<times> real \<times> string list \<Rightarrow> string \<times> real \<times> string list" where
  "star_body tk st =
     (case st of (read_bytes, last_ring, sent) \<Rightarrow>
        let b1 = read_bytes @ (case rx_byte tk of None \<Rightarrow> [] | Some b \<Rightarrow> [b]);
            b2 = (if py_in [LF] b1 then [] else b1);
            sent2 = (if py_in [LF] b1 then sent @ [''AT+VIP'', ''AT+VLS=4''] else sent)
        in if py_in ring_bytes1 b2 \<or> py_in ring_bytes2 b2
           then (py_replace (py_replace b2 ring_bytes1 []) ring_bytes2 [], ring_clock tk, sent2)
           else (b2, last_ring, sent2))"

text \<open>
  The loop and what follows it (lines 408 to 423), run on the passes observed. Each
  evaluation of the loop test reads the clock, so it takes a tick; \<open>None\<close> says that
  the loop is still running when the observed ticks are used up.
\<close>

fun star_loop :: "tick list \<Rightarrow> string \<times> real \<times> string list \<Rightarrow> (bool \<times> string list) option" where
  "star_loop [] st = None"
| "star_loop (tk # tks) (read_bytes, last_ring, sent) =
     (if clock tk - last_ring < 10 \<and> \<not> py_in star_bytes read_bytes
      then star_loop tks (star_body tk (read_bytes, last_ring, sent))
      else Some (py_in star_bytes read_bytes, sent @ [''ATH'']))"

text \<open>\<^verbatim>\<open>wait_for_star\<close>; \<open>t0\<close> is the clock read at line 407. The result is the value
  returned and the commands sent.\<close>

definition wait_for_star :: "real \<Rightarrow> tick list \<Rightarrow> (bool \<times> string list) option" where
  "wait_for_star t0 ticks = star_loop ticks ([], t0, [''AT+FCLASS=8'', ''AT+VIP'', ''AT+VLS=4''])"

text \<open>\<^verbatim>\<open>terminate_call\<close>: the commands it sends (the pauses between them are not
  modelled).\<close>

definition terminate_call :: "string list" where
  "terminate_call = [''AT+FCLASS=1'', ''ATA'', ''ATH'', ''ATH'']"

subsection \<open>Screening a call: lines 177 to 222 of \<^verbatim>\<open>main\<close>\<close>

definition allowlist_file :: string where
  "allowlist_file = ''allowlist.dat''"

definition blocklist_file :: string where
  "blocklist_file = ''blocklist.dat''"

definition calllog_file :: string where
  "calllog_file = ''calllog.log''"

text \<open>
  The state the screening code works on: the two lists, the files, the commands sent
  to the modem and the lines printed by the list matcher (the other diagnostic prints of
  the program are not modelled).
\<close>

record 'r state =
  allowlist :: "'r plist"
  blocklist :: "'r plist"
  disk :: files
  sent :: "string list"
  console :: "string list"

text \<open>Line 180; \<open>year\<close> is \<^verbatim>\<open>time.strftime('%Y')\<close>.\<close>

definition call_timestamp :: "string \<Rightarrow> caller_id \<Rightarrow> string" where
  "call_timestamp year c =
     year @ ''-'' @ take 2 (call_date c) @ ''-'' @ take 2 (drop 2 (call_date c)) @ '' '' @
     take 2 (call_time c) @ '':'' @ take 2 (drop 2 (call_time c))"

text \<open>Lines 220 to 222: one line appended to the call log.\<close>

definition log_line :: "string \<Rightarrow> caller_id \<Rightarrow> string \<Rightarrow> string" where
  "log_line ts c match =
     ts @ ''  '' @ space_fill (call_number c) 12 @ space_fill (call_name c) 17 @ '' : '' @ match @ [LF]"

definition log_call :: "string \<Rightarrow> caller_id \<Rightarrow> string \<Rightarrow> 'r state \<Rightarrow> 'r state" where
  "log_call ts c match st = st\<lparr>disk := append_file (disk st) calllog_file (log_line ts c match)\<rparr>"

text \<open>
  Lines 199 to 217, after a star key: the number is compiled; line 206 empties
  \<^verbatim>\<open>regex\<close> when that fails, and line 207 goes on only with a non-empty
  \<^verbatim>\<open>regex\<close>. \<open>now\<close> is \<^verbatim>\<open>time.strftime("%Y-%m-%d %H:%M")\<close>. The result is the
  state and the value of \<^verbatim>\<open>match\<close>.
\<close>

definition star_add :: "(string \<Rightarrow> 'r option) \<Rightarrow> string \<Rightarrow> caller_id \<Rightarrow> 'r state \<Rightarrow> 'r state \<times> string" where
  "star_add compile now c st =
     (case compile (call_number c) of
        None \<Rightarrow> (st, ''no match'')
      | Some r \<Rightarrow>
          if call_number c \<noteq> [] then
            (st\<lparr>blocklist :=
                  dict_set (call_number c)
                    \<lparr>regex = r, timestamp = now, count = 0, permanent = False,
                     note_text = ''added by user * key''\<rparr> (blocklist st),
                disk := append_file (disk st) blocklist_file
                          (call_number c @ '';;added by user * key'' @ [LF])\<rparr>,
             ''added to block by user * key'')
          else (st, ''no match''))"

text \<open>
  The screening of one completed Caller ID. \<open>t0\<close> and \<open>ticks\<close> are what
  \<^verbatim>\<open>wait_for_star\<close> observes if it is called; \<open>None\<close> says that it has not returned
  within them.
\<close>

definition screen ::
  "(string \<Rightarrow> 'r option) \<Rightarrow> ('r \<Rightarrow> string \<Rightarrow> bool) \<Rightarrow> string \<Rightarrow> string \<Rightarrow> real \<Rightarrow> tick list \<Rightarrow>
   caller_id \<Rightarrow> 'r state \<Rightarrow> 'r state option" where
  "screen compile mtch year now t0 ticks c st =
     (let ts = call_timestamp year c in
      case match_list_both mtch (allowlist st) ''allow'' (call_number c) (call_name c) ts of
        (al, True, out) \<Rightarrow>
          Some (log_call ts c ''allow''
            (st\<lparr>allowlist := al, console := console st @ out,
                disk := update_list_match al (disk st) allowlist_file\<rparr>))
      | (al, False, out) \<Rightarrow>
          (case match_list_both mtch (blocklist st) ''block'' (call_number c) (call_name c) ts of
             (bl, True, out2) \<Rightarrow>
               Some (log_call ts c ''block''
                 (st\<lparr>allowlist := al, blocklist := bl, console := console st @ out @ out2,
                     disk := update_list_match bl (disk st) blocklist_file,
                     sent := sent st @ terminate_call\<rparr>))
           | (bl, False, out2) \<Rightarrow>
               (case wait_for_star t0 ticks of
                  None \<Rightarrow> None
                | Some (star, cmds) \<Rightarrow>
                    let st1 = st\<lparr>allowlist := al, blocklist := bl,
                                 console := console st @ out @ out2, sent := sent st @ cmds\<rparr>
                    in if star
                       then (case star_add compile now c st1 of
                               (st2, match) \<Rightarrow> Some (log_call ts c match st2))
                       else Some (log_call ts c ''no match'' st1))))"

text \<open>
  One pass of the main loop from line 153 on: the accumulator, the screening of a
  completed Caller ID, and the reset of lines 224 to 227. The purge and the reload at the
  head of the loop are \<open>purge_list\<close> and \<open>read_list\<close>.
\<close>

definition loop_pass ::
  "(string \<Rightarrow> 'r option) \<Rightarrow> ('r \<Rightarrow> string \<Rightarrow> bool) \<Rightarrow> string \<Rightarrow> string \<Rightarrow> real \<Rightarrow> tick list \<Rightarrow>
   string \<Rightarrow> caller_id \<times> 'r state \<Rightarrow> (caller_id \<times> 'r state) option" where
  "loop_pass compile mtch year now t0 ticks line cs =
     (case caller_id_line (fst cs) line of
        (c, True) \<Rightarrow> map_option (\<lambda>st. (no_call, st)) (screen compile mtch year now t0 ticks c (snd cs))
      | (c, False) \<Rightarrow> Some (c, snd cs))"

subsection \<open>A regular expression engine for literal patterns\<close>

text \<open>
  To run the model on concrete inputs the engine parameters are instantiated for the
  patterns that consist of literal characters with an optional \<^verbatim>\<open>^\<close> in front.
  Python compiles each of them, and \<^verbatim>\<open>match\<close> under \<^verbatim>\<open>re.IGNORECASE\<close> tests whether
  the subject starts with the literal text, letters compared without case. Every other
  pattern is refused by \<open>lit_compile\<close>; that agrees with Python for a pattern that starts
  with a repetition sign (\<^verbatim>\<open>+15551234\<close>: nothing to repeat) and says nothing about the
  rest of Python's pattern language, on which no theorem below relies.
\<close>

definition to_lower :: "char \<Rightarrow> char" where
  "to_lower c =
     (case map_of (zip ''ABCDEFGHIJKLMNOPQRSTUVWXYZ'' ''abcdefghijklmnopqrstuvwxyz'') c of
        None \<Rightarrow> c
      | Some l \<Rightarrow> l)"

definition special_chars :: string where
  "special_chars = [CHR 0x5C] @ ''.^$*+?{}[]|()''"

definition lit_compile :: "string \<Rightarrow> string option" where
  "lit_compile p =
     (let body = (if p \<noteq> [] \<and> hd p = CHR ''^'' then tl p else p) in
      if list_ex (\<lambda>c. c \<in> set special_chars) body then None else Some (map to_lower body))"

definition lit_match :: "string \<Rightarrow> string \<Rightarrow> bool" where
  "lit_match r s = (map to_lower (take (length r) s) = r)"

subsection \<open>Notions used in the statements\<close>

text \<open>A list matches a call when one of its patterns matches the number or the name.\<close>

definition matches :: "('r \<Rightarrow> string \<Rightarrow> bool) \<Rightarrow> 'r plist \<Rightarrow> caller_id \<Rightarrow> bool" where
  "matches mtch lst c =
     (list_ex (\<lambda>e. mtch (regex (snd e)) (call_number c)) lst \<or>
      list_ex (\<lambda>e. mtch (regex (snd e)) (call_name c)) lst)"

text \<open>The lines printed, and the commands sent, between two states.\<close>

definition printed_by :: "'r state \<Rightarrow> 'r state \<Rightarrow> string list" where
  "printed_by st st' = drop (length (console st)) (console st')"

definition sent_by :: "'r state \<Rightarrow> 'r state \<Rightarrow> string list" where
  "sent_by st st' = drop (length (sent st)) (sent st')"

text \<open>Between two states the call log has grown by exactly the line of this call with
  the given outcome.\<close>

definition logged :: "string \<Rightarrow> caller_id \<Rightarrow> string \<Rightarrow> 'r state \<Rightarrow> 'r state \<Rightarrow> bool" where
  "logged year c outcome st st' =
     (disk st' calllog_file =
      Some ((case disk st calllog_file of None \<Rightarrow> [] | Some old \<Rightarrow> old) @
            log_line (call_timestamp year c) c outcome))"

text \<open>Every entry holds the compiled form of its own key; in particular every key
  compiles.\<close>

definition compiled :: "(string \<Rightarrow> 'r option) \<Rightarrow> 'r plist \<Rightarrow> bool" where
  "compiled compile lst = list_all (\<lambda>e. compile (fst e) = Some (regex (snd e))) lst"

text \<open>The pattern text of a line of a list file, as lines 254 to 263 and 339 to 345
  compute it.\<close>

definition line_pattern :: "string \<Rightarrow> string" where
  "line_pattern line =
     fst (join_escaped (hd (py_split (CHR '';'') (strip_newlines line)))
                       (tl (py_split (CHR '';'') (strip_newlines line))))"

text \<open>A key is listed in a list file when it is the pattern of a line that is no
  comment.\<close>

definition entry_line :: "string \<Rightarrow> string \<Rightarrow> bool" where
  "entry_line k line = (\<not> startswith line ''#'' \<and> line_pattern line = k)"

definition listed :: "string \<Rightarrow> string \<Rightarrow> bool" where
  "listed content k = list_ex (entry_line k) (file_lines content)"

text \<open>An entry has expired when it is not permanent and more than the lifetime has passed
  since its timestamp.\<close>

definition expired :: "(string \<Rightarrow> real option) \<Rightarrow> real \<Rightarrow> int \<Rightarrow> 'r item \<Rightarrow> bool" where
  "expired ptime now days it =
     (\<not> permanent it \<and>
      (case ptime (timestamp it) of None \<Rightarrow> False | Some t \<Rightarrow> now - t > of_int days * day_secs))"

text \<open>The comment that line 354 puts in front of a purged line.\<close>

definition annotation :: "'r item \<Rightarrow> string" where
  "annotation it = ''# last blocked on '' @ timestamp it @ '' count '' @ py_str (count it) @ '' #''"

text \<open>A line of the new file is the old line, or the old line commented out for an
  expired entry of the list.\<close>

definition purged_line :: "(string \<Rightarrow> real option) \<Rightarrow> real \<Rightarrow> int \<Rightarrow> 'r plist \<Rightarrow> string \<Rightarrow> string \<Rightarrow> bool" where
  "purged_line ptime now days lst old new =
     (new = old \<or>
      (\<exists>it. (line_pattern old, it) \<in> set lst \<and> expired ptime now days it \<and> \<not> startswith old ''#''
            \<and> new = annotation it @ old))"

text \<open>A line of the match file that \<^verbatim>\<open>read_list\<close> applies to the key: three fields, the
  third being the key.\<close>

definition history_line :: "string \<Rightarrow> string \<Rightarrow> bool" where
  "history_line k line =
     (length (py_splitn (CHR '';'') 3 (strip_newlines line)) = 3 \<and>
      py_splitn (CHR '';'') 3 (strip_newlines line) ! 2 = k)"

definition has_history :: "files \<Rightarrow> string \<Rightarrow> string \<Rightarrow> bool" where
  "has_history fs list_file k =
     (case fs (list_file @ ''-match'') of
        None \<Rightarrow> False
      | Some history \<Rightarrow> list_ex (history_line k) (file_lines history))"

text \<open>A list as the first loop of \<^verbatim>\<open>read_list\<close> builds it: the keys differ, and
  every entry has the time of the load and the count 0.\<close>

definition fresh :: "string \<Rightarrow> 'r plist \<Rightarrow> bool" where
  "fresh now lst = (distinct (map fst lst) \<and> list_all (\<lambda>e. timestamp (snd e) = now \<and> count (snd e) = 0) lst)"

text \<open>The state of the loop of \<^verbatim>\<open>wait_for_star\<close> when the loop is entered, the loop
  test for one tick, the state after the passes of some ticks, and whether every loop test
  along these passes succeeds.\<close>

definition star_start :: "real \<Rightarrow> string \<times> real \<times> string list" where
  "star_start t0 = ([], t0, [''AT+FCLASS=8'', ''AT+VIP'', ''AT+VLS=4''])"

definition star_guard :: "tick \<Rightarrow> string \<times> real \<times> string list \<Rightarrow> bool" where
  "star_guard tk st = (clock tk - fst (snd st) < 10 \<and> \<not> py_in star_bytes (fst st))"

fun star_run :: "tick list \<Rightarrow> string \<times> real \<times> string list \<Rightarrow> string \<times> real \<times> string list" where
  "star_run [] st = st"
| "star_run (tk # tks) st = star_run tks (star_body tk st)"

fun window_open :: "tick list \<Rightarrow> string \<times> real \<times> string list \<Rightarrow> bool" where
  "window_open [] st = True"
| "window_open (tk # tks) st = (star_guard tk st \<and> window_open tks (star_body tk st))"

text \<open>The bytes read along some ticks, and the byte streams that consist of ring
  indicators only (the last one may be cut after its first byte).\<close>

definition rx_bytes :: "tick list \<Rightarrow> string" where
  "rx_bytes ticks = concat (map (\<lambda>tk. case rx_byte tk of None \<Rightarrow> [] | Some b \<Rightarrow> [b]) ticks)"

fun ring_stream :: "string \<Rightarrow> bool" where
  "ring_stream [] = True"
| "ring_stream [a] = (a = CHR 0x10)"
| "ring_stream (a # b # cs) = (a = CHR 0x10 \<and> (b = CHR ''R'' \<or> b = CHR ''r'') \<and> ring_stream cs)"

text \<open>With only ring indicators to read, the buffer is empty or holds the first byte of
  an indicator whose second byte is the next to be read.\<close>

definition ring_inv :: "string \<Rightarrow> string \<Rightarrow> bool" where
  "ring_inv buf rest =
     ((buf = [] \<and> ring_stream rest) \<or> (buf = [CHR 0x10] \<and> ring_stream (CHR 0x10 # rest)))"

text \<open>A buffer as the loop keeps it between passes: it holds neither ring indicator and no
  line feed. A pass completes a ring indicator when the buffer ends in the first byte of
  the indicators and the byte read is the second byte of one.\<close>

definition clean :: "string \<Rightarrow> bool" where
  "clean buf = (\<not> py_in ring_bytes1 buf \<and> \<not> py_in ring_bytes2 buf \<and> \<not> py_in [LF] buf)"

definition ring_completed :: "string \<Rightarrow> tick \<Rightarrow> bool" where
  "ring_completed buf tk =
     (buf \<noteq> [] \<and> last buf = CHR 0x10 \<and> (rx_byte tk = Some (CHR ''R'') \<or> rx_byte tk = Some (CHR ''r'')))"

text \<open>A text without line terminators, as \<^verbatim>\<open>read_line\<close> returns the lines of the modem
  (line 392 removes every line feed and carriage return), and a file content that consists
  of whole lines: it is empty or ends in a line terminator.\<close>

definition one_line :: "string \<Rightarrow> bool" where
  "one_line s = (LF \<notin> set s \<and> CR \<notin> set s)"

definition whole_lines :: "string \<Rightarrow> bool" where
  "whole_lines content = (content = [] \<or> last content = LF \<or> last content = CR)"

subsection \<open>Inputs of the examples\<close>

text \<open>A run of \<^verbatim>\<open>wait_for_star\<close> in which the six bytes of the star marker arrive
  one per second.\<close>

definition star_ticks :: "tick list" where
  "star_ticks =
     [\<lparr>clock = 1, rx_byte = Some (CHR 0x10), ring_clock = 1\<rparr>,
      \<lparr>clock = 2, rx_byte = Some (CHR ''/''), ring_clock = 2\<rparr>,
      \<lparr>clock = 3, rx_byte = Some (CHR 0x10), ring_clock = 3\<rparr>,
      \<lparr>clock = 4, rx_byte = Some (CHR ''*''), ring_clock = 4\<rparr>,
      \<lparr>clock = 5, rx_byte = Some (CHR 0x10), ring_clock = 5\<rparr>,
      \<lparr>clock = 6, rx_byte = Some (CHR ''~''), ring_clock = 6\<rparr>,
      \<lparr>clock = 7, rx_byte = None, ring_clock = 7\<rparr>]"

text \<open>For the examples: \<^verbatim>\<open>time.mktime(time.strptime(s, "%Y-%m-%d %H:%M"))\<close> on the
  timestamps they use, in a process whose time zone is UTC.\<close>

definition example_ptime :: "string \<Rightarrow> real option" where
  "example_ptime s =
     (if s = ''2021-01-01 00:00'' then Some 1609459200
      else if s = ''2021-10-01 00:00'' then Some 1633046400
      else if s = ''2021-11-02 00:00'' then Some 1635811200
      else None)"

text \<open>A block list and its file for the examples of purging.\<close>

definition purge_example_list :: "string plist" where
  "purge_example_list =
     [(''^444'', \<lparr>regex = ''444'', timestamp = ''2021-01-01 00:00'', count = 9, permanent = True,
                  note_text = ''office''\<rparr>),
      (''^555'', \<lparr>regex = ''555'', timestamp = ''2021-01-01 00:00'', count = 3, permanent = False,
                  note_text = ''spam''\<rparr>),
      (''abc'', \<lparr>regex = ''abc'', timestamp = ''2021-10-01 00:00'', count = 1, permanent = False,
                 note_text = []\<rparr>)]"

definition purge_example_files :: files where
  "purge_example_files =
     [''blocklist.dat'' \<mapsto> ''^444;p;office'' @ [LF] @ ''^555;;spam'' @ [LF] @ ''abc;;'' @ [LF],
      ''blocklist.dat-backup'' \<mapsto> ''old'' @ [LF]]"

text \<open>A list file of two entries with a match file that knows one of them.\<close>

definition history_example_files :: files where
  "history_example_files =
     [''blocklist.dat'' \<mapsto> ''^555;;spam'' @ [LF] @ ''abc;;'' @ [LF],
      ''blocklist.dat-match'' \<mapsto> ''2021-01-01 00:00;3;^555'' @ [LF]]"

definition history_example_list :: "string plist" where
  "history_example_list =
     [(''^555'', \<lparr>regex = ''555'', timestamp = ''2021-01-01 00:00'', count = 3, permanent = False,
                  note_text = ''spam''\<rparr>),
      (''abc'', \<lparr>regex = ''abc'', timestamp = ''2021-10-01 00:00'', count = 0, permanent = False,
                 note_text = []\<rparr>)]"

text \<open>A list file whose first pattern holds an escaped semicolon.\<close>

definition semicolon_example_files :: files where
  "semicolon_example_files = [''blocklist.dat'' \<mapsto> ''a'' @ [CHR 0x5C] @ '';b;;'' @ [LF] @ ''^555;;'' @ [LF]]"

text \<open>A run of \<^verbatim>\<open>wait_for_star\<close> that reads one ring indicator, complete 2.5 seconds
  after the start, and a lone first byte later on.\<close>

definition ring_ticks :: "tick list" where
  "ring_ticks =
     [\<lparr>clock = 1, rx_byte = Some (CHR 0x10), ring_clock = 1\<rparr>,
      \<lparr>clock = 2, rx_byte = Some (CHR ''R''), ring_clock = 2.5\<rparr>,
      \<lparr>clock = 11, rx_byte = None, ring_clock = 11\<rparr>,
      \<lparr>clock = 12, rx_byte = Some (CHR 0x10), ring_clock = 12\<rparr>,
      \<lparr>clock = 12.4, rx_byte = None, ring_clock = 12.4\<rparr>,
      \<lparr>clock = 12.5, rx_byte = None, ring_clock = 12.5\<rparr>]"

section \<open>Verification\<close>

subsection \<open>The accumulator\<close>

lemma call_step_complete:
  "(snd (call_step st line) \<noteq> None) =
     ((startswith line ''NAME'' \<or> startswith line ''RING'') \<and> call_date st \<noteq> [])"
  by (auto simp: call_step_def caller_id_line_def startswith_def)

lemma call_step_name:
  "startswith line ''NAME'' \<Longrightarrow> call_date st \<noteq> [] \<Longrightarrow>
   call_step st line = (no_call, Some (st\<lparr>call_name := strip_key line\<rparr>))"
  by (auto simp: call_step_def caller_id_line_def startswith_def)

lemma call_step_ring:
  "startswith line ''RING'' \<Longrightarrow>
   call_step st line = (if call_date st = [] then (st, None) else (no_call, Some st))"
  by (auto simp: call_step_def caller_id_line_def startswith_def)

lemma feed_rings:
  "list_all (\<lambda>l. startswith l ''RING'') rings \<Longrightarrow> call_date st = [] \<Longrightarrow> feed st rings = []"
  by (induction rings) (auto simp: call_step_ring)

lemma feed_rings_then:
  "list_all (\<lambda>l. startswith l ''RING'') rings \<Longrightarrow> call_date st = [] \<Longrightarrow>
   feed st (rings @ rest) = feed st rest"
  by (induction rings) (auto simp: call_step_ring)

lemma feed_caller_id:
  assumes "startswith l1 ''DATE''" "startswith l2 ''TIME''" "startswith l3 ''NMBR''"
  shows "feed no_call ([l1, l2, l3] @ rest) =
         feed \<lparr>call_date = strip_key l1, call_time = strip_key l2, call_name = [],
               call_number = strip_key l3\<rparr> rest"
  using assms by (auto simp: call_step_def caller_id_line_def no_call_def startswith_def)

lemma loop_pass_call_step:
  "loop_pass compile mtch year now t0 ticks line (c, st) =
     (case call_step c line of
        (c', None) \<Rightarrow> Some (c', st)
      | (c', Some r) \<Rightarrow> map_option (\<lambda>st'. (c', st')) (screen compile mtch year now t0 ticks r st))"
  by (auto simp: loop_pass_def call_step_def split: prod.splits bool.splits)

text \<open>
  C1. Control reaches the screening code exactly when a \<^verbatim>\<open>NAME\<close> line or a
  \<^verbatim>\<open>RING\<close> line arrives while a date is held (\<^verbatim>\<open>call_date\<close> is not empty), and all
  four variables are empty afterwards. Rings, then \<^verbatim>\<open>DATE\<close>, \<^verbatim>\<open>TIME\<close>, \<^verbatim>\<open>NMBR\<close>
  with a non-empty date, hand over nothing by themselves; followed by \<^verbatim>\<open>NAME\<close> and any
  number of rings they hand over exactly one record, that of the four lines; followed by
  rings only they hand over exactly one record, at the first of those rings, with an empty
  name.
\<close>

theorem caller_id_completed_once:
  "((snd (call_step st line) \<noteq> None) =
      ((startswith line ''NAME'' \<or> startswith line ''RING'') \<and> call_date st \<noteq> []))
   \<and> (snd (call_step st line) \<noteq> None \<longrightarrow> fst (call_step st line) = no_call)
   \<and> (list_all (\<lambda>l. startswith l ''RING'') rings0 \<and> list_all (\<lambda>l. startswith l ''RING'') rings1
        \<and> startswith l1 ''DATE'' \<and> startswith l2 ''TIME'' \<and> startswith l3 ''NMBR''
        \<and> startswith l4 ''NAME'' \<and> startswith ring ''RING'' \<and> strip_key l1 \<noteq> [] \<longrightarrow>
        feed no_call (rings0 @ [l1, l2, l3]) = []
        \<and> feed no_call (rings0 @ [l1, l2, l3, l4] @ rings1) =
            [\<lparr>call_date = strip_key l1, call_time = strip_key l2, call_name = strip_key l4,
              call_number = strip_key l3\<rparr>]
        \<and> feed no_call (rings0 @ [l1, l2, l3, ring] @ rings1) =
            [\<lparr>call_date = strip_key l1, call_time = strip_key l2, call_name = [],
              call_number = strip_key l3\<rparr>])"
proof (intro conjI impI)
  show "(snd (call_step st line) \<noteq> None) =
      ((startswith line ''NAME'' \<or> startswith line ''RING'') \<and> call_date st \<noteq> [])"
    by (rule call_step_complete)
next
  assume "snd (call_step st line) \<noteq> None"
  then show "fst (call_step st line) = no_call"
    by (auto simp: call_step_def split: prod.splits bool.splits)
next
  assume a: "list_all (\<lambda>l. startswith l ''RING'') rings0 \<and> list_all (\<lambda>l. startswith l ''RING'') rings1
        \<and> startswith l1 ''DATE'' \<and> startswith l2 ''TIME'' \<and> startswith l3 ''NMBR''
        \<and> startswith l4 ''NAME'' \<and> startswith ring ''RING'' \<and> strip_key l1 \<noteq> []"
  have e: "call_date no_call = []"
    by (simp add: no_call_def)
  have r1: "feed no_call rings1 = []"
    using a e by (simp add: feed_rings)
  have pre: "\<And>rest. feed no_call (rings0 @ [l1, l2, l3] @ rest) =
      feed \<lparr>call_date = strip_key l1, call_time = strip_key l2, call_name = [],
            call_number = strip_key l3\<rparr> rest"
    using a e by (simp only: feed_rings_then feed_caller_id)
  show "feed no_call (rings0 @ [l1, l2, l3]) = []"
    using pre [of "[]"] by simp
  show "feed no_call (rings0 @ [l1, l2, l3, l4] @ rings1) =
            [\<lparr>call_date = strip_key l1, call_time = strip_key l2, call_name = strip_key l4,
              call_number = strip_key l3\<rparr>]"
    using pre [of "l4 # rings1"] a r1 by (simp add: call_step_name)
  show "feed no_call (rings0 @ [l1, l2, l3, ring] @ rings1) =
            [\<lparr>call_date = strip_key l1, call_time = strip_key l2, call_name = [],
              call_number = strip_key l3\<rparr>]"
    using pre [of "ring # rings1"] a r1 by (simp add: call_step_ring)
qed

theorem caller_id_completed_once_witness:
  "feed no_call [''RING'', ''DATE = 0102'', ''TIME = 1530'', ''NMBR = 5551234''] = []
   \<and> feed no_call [''RING'', ''DATE = 0102'', ''TIME = 1530'', ''NMBR = 5551234'', ''NAME = DOE JOHN'',
        ''RING'', ''RING''] =
       [\<lparr>call_date = ''0102'', call_time = ''1530'', call_name = ''DOE JOHN'', call_number = ''5551234''\<rparr>]
   \<and> feed no_call [''RING'', ''DATE = 0102'', ''TIME = 1530'', ''NMBR = 5551234'', ''RING'', ''RING''] =
       [\<lparr>call_date = ''0102'', call_time = ''1530'', call_name = [], call_number = ''5551234''\<rparr>]
   \<and> call_step \<lparr>call_date = ''0102'', call_time = [], call_name = [], call_number = []\<rparr> ''NAME = X'' =
       (no_call, Some \<lparr>call_date = ''0102'', call_time = [], call_name = ''X'', call_number = []\<rparr>)
   \<and> call_step no_call ''NAME = X'' =
       (\<lparr>call_date = [], call_time = [], call_name = ''X'', call_number = []\<rparr>, None)"
  using caller_id_completed_once [where ?rings0.0 = "[''RING'']" and ?rings1.0 = "[''RING'']"
      and ?l1.0 = "''DATE = 0102''" and ?l2.0 = "''TIME = 1530''" and ?l3.0 = "''NMBR = 5551234''"
      and ?l4.0 = "''NAME = DOE JOHN''" and ring = "''RING''"
      and st = "\<lparr>call_date = ''0102'', call_time = [], call_name = [], call_number = []\<rparr>"
      and line = "''NAME = X''"]
    caller_id_completed_once [where st = no_call and line = "''NAME = X''"]
  by (simp add: startswith_def strip_key_def is_word_def is_space_def call_step_def
      caller_id_line_def no_call_def)

text \<open>
  C7 as stated fails: a \<^verbatim>\<open>RING\<close> line that arrives while a date is held completes the
  record (line 158 lets control fall through to line 177).
\<close>

theorem ring_never_completes_counterexample:
  "feed no_call [''DATE = 0102'', ''TIME = 1530'', ''NMBR = 5551234''] = []
   \<and> feed no_call [''DATE = 0102'', ''TIME = 1530'', ''NMBR = 5551234'', ''RING''] =
       [\<lparr>call_date = ''0102'', call_time = ''1530'', call_name = [], call_number = ''5551234''\<rparr>]"
  by (simp add: startswith_def strip_key_def is_word_def is_space_def call_step_def
      caller_id_line_def no_call_def)

text \<open>
  C7, amended. A \<^verbatim>\<open>RING\<close> line that arrives while no date is held is ignored: nothing
  is handed over and the variables stay as they are. A \<^verbatim>\<open>RING\<close> line that arrives
  while a date is held completes the record: the variables as they stand are handed over
  and then cleared.
\<close>

theorem ring_completes_iff_date:
  "startswith line ''RING'' \<Longrightarrow>
   call_step st line = (if call_date st = [] then (st, None) else (no_call, Some st))"
  by (rule call_step_ring)

theorem ring_completes_iff_date_witness:
  "call_step \<lparr>call_date = [], call_time = ''1530'', call_name = [], call_number = []\<rparr> ''RING'' =
     (\<lparr>call_date = [], call_time = ''1530'', call_name = [], call_number = []\<rparr>, None)
   \<and> call_step \<lparr>call_date = ''0102'', call_time = ''1530'', call_name = [], call_number = ''5551234''\<rparr> ''RING'' =
     (no_call, Some \<lparr>call_date = ''0102'', call_time = ''1530'', call_name = [], call_number = ''5551234''\<rparr>)"
  using ring_completes_iff_date [of "''RING''" "\<lparr>call_date = [], call_time = ''1530'', call_name = [], call_number = []\<rparr>"]
    ring_completes_iff_date [of "''RING''" "\<lparr>call_date = ''0102'', call_time = ''1530'', call_name = [], call_number = ''5551234''\<rparr>"]
  by (simp add: startswith_def)

subsection \<open>Matching\<close>

lemma match_list_miss:
  "\<not> list_ex (\<lambda>e. mtch (regex (snd e)) s) lst \<Longrightarrow> match_list mtch lst s ts = (lst, False, [])"
  by (induction lst) auto

lemma match_list_hit:
  "list_all (\<lambda>e. \<not> mtch (regex (snd e)) s) pre \<Longrightarrow> mtch (regex it) s \<Longrightarrow>
   match_list mtch (pre @ (k, it) # post) s ts =
     (pre @ (k, it\<lparr>timestamp := ts, count := count it + 1\<rparr>) # post, True,
      [''Matched pattern '' @ [CHR 0x27] @ k @ [CHR 0x27] @ '' count '' @ py_str (count it + 1)])"
  by (induction pre) auto

lemma match_list_result:
  "fst (snd (match_list mtch lst s ts)) = list_ex (\<lambda>e. mtch (regex (snd e)) s) lst"
proof (induction lst)
  case Nil
  show ?case by simp
next
  case (Cons e lst)
  obtain k it where e: "e = (k, it)" by (cases e)
  obtain l b out where r: "match_list mtch lst s ts = (l, b, out)" by (cases "match_list mtch lst s ts")
  show ?case using Cons e r by simp
qed

lemma first_hit:
  assumes "list_ex P lst"
  shows "\<exists>pre e post. lst = pre @ e # post \<and> list_all (\<lambda>x. \<not> P x) pre \<and> P e"
proof -
  from assms have "\<exists>x \<in> set lst. P x" by (simp add: list_ex_iff)
  then obtain pre e post where "lst = pre @ e # post" "P e" "\<forall>y \<in> set pre. \<not> P y"
    by (auto dest!: split_list_first_prop)
  then show ?thesis by (auto simp: list_all_iff)
qed

text \<open>
  C4. \<^verbatim>\<open>match_list\<close> returns true exactly when the pattern of some entry matches the
  candidate. On a miss the list is left as it is. On a hit the list splits at the first
  entry whose pattern matches (no entry before it does); that entry gets the timestamp
  handed in and one more count, and every other entry is left as it is. With the engine
  for literal patterns, the pattern \<^verbatim>\<open>abc\<close> matches the candidate \<^verbatim>\<open>ABCDEF\<close> and
  does not match \<^verbatim>\<open>xabc\<close>.
\<close>

theorem match_list_first_hit:
  "(fst (snd (match_list mtch lst s ts)) = list_ex (\<lambda>e. mtch (regex (snd e)) s) lst)
   \<and> (\<not> list_ex (\<lambda>e. mtch (regex (snd e)) s) lst \<longrightarrow> match_list mtch lst s ts = (lst, False, []))
   \<and> (list_ex (\<lambda>e. mtch (regex (snd e)) s) lst \<longrightarrow>
        (\<exists>pre k it post. lst = pre @ (k, it) # post
           \<and> list_all (\<lambda>e. \<not> mtch (regex (snd e)) s) pre \<and> mtch (regex it) s
           \<and> match_list mtch lst s ts =
               (pre @ (k, it\<lparr>timestamp := ts, count := count it + 1\<rparr>) # post, True,
                [''Matched pattern '' @ [CHR 0x27] @ k @ [CHR 0x27] @ '' count '' @ py_str (count it + 1)])))
   \<and> lit_compile ''abc'' = Some ''abc''
   \<and> fst (snd (match_list lit_match
        [(''abc'', \<lparr>regex = ''abc'', timestamp = t, count = n, permanent = p, note_text = x\<rparr>)] ''ABCDEF'' ts))
   \<and> \<not> fst (snd (match_list lit_match
        [(''abc'', \<lparr>regex = ''abc'', timestamp = t, count = n, permanent = p, note_text = x\<rparr>)] ''xabc'' ts))"
proof (intro conjI impI)
  show "fst (snd (match_list mtch lst s ts)) = list_ex (\<lambda>e. mtch (regex (snd e)) s) lst"
    by (rule match_list_result)
next
  assume "\<not> list_ex (\<lambda>e. mtch (regex (snd e)) s) lst"
  then show "match_list mtch lst s ts = (lst, False, [])"
    by (rule match_list_miss)
next
  assume "list_ex (\<lambda>e. mtch (regex (snd e)) s) lst"
  then obtain pre e post where d: "lst = pre @ e # post"
      and pre: "list_all (\<lambda>e. \<not> mtch (regex (snd e)) s) pre" and e: "mtch (regex (snd e)) s"
    using first_hit [of "\<lambda>e. mtch (regex (snd e)) s" lst] by blast
  obtain k it where k: "e = (k, it)" by (cases e)
  from pre e k have "match_list mtch (pre @ (k, it) # post) s ts =
     (pre @ (k, it\<lparr>timestamp := ts, count := count it + 1\<rparr>) # post, True,
      [''Matched pattern '' @ [CHR 0x27] @ k @ [CHR 0x27] @ '' count '' @ py_str (count it + 1)])"
    by (simp add: match_list_hit)
  with d pre e k show "\<exists>pre k it post. lst = pre @ (k, it) # post
           \<and> list_all (\<lambda>e. \<not> mtch (regex (snd e)) s) pre \<and> mtch (regex it) s
           \<and> match_list mtch lst s ts =
               (pre @ (k, it\<lparr>timestamp := ts, count := count it + 1\<rparr>) # post, True,
                [''Matched pattern '' @ [CHR 0x27] @ k @ [CHR 0x27] @ '' count '' @ py_str (count it + 1)])"
    by auto
next
  show "lit_compile ''abc'' = Some ''abc''"
    by (simp add: lit_compile_def special_chars_def to_lower_def)
next
  show "fst (snd (match_list lit_match
        [(''abc'', \<lparr>regex = ''abc'', timestamp = t, count = n, permanent = p, note_text = x\<rparr>)] ''ABCDEF'' ts))"
    by (simp add: lit_match_def to_lower_def)
next
  show "\<not> fst (snd (match_list lit_match
        [(''abc'', \<lparr>regex = ''abc'', timestamp = t, count = n, permanent = p, note_text = x\<rparr>)] ''xabc'' ts))"
    by (simp add: lit_match_def to_lower_def)
qed

theorem match_list_first_hit_witness:
  "match_list lit_match
     [(''444'', \<lparr>regex = ''444'', timestamp = ''2021-10-06 17:01'', count = 2, permanent = False, note_text = []\<rparr>),
      (''^555'', \<lparr>regex = ''555'', timestamp = ''2021-10-06 17:01'', count = 7, permanent = True, note_text = []\<rparr>),
      (''5551'', \<lparr>regex = ''5551'', timestamp = ''2021-10-06 17:01'', count = 0, permanent = False, note_text = []\<rparr>)]
     ''5551234'' ''2021-11-02 09:30'' =
    ([(''444'', \<lparr>regex = ''444'', timestamp = ''2021-10-06 17:01'', count = 2, permanent = False, note_text = []\<rparr>),
      (''^555'', \<lparr>regex = ''555'', timestamp = ''2021-11-02 09:30'', count = 8, permanent = True, note_text = []\<rparr>),
      (''5551'', \<lparr>regex = ''5551'', timestamp = ''2021-10-06 17:01'', count = 0, permanent = False, note_text = []\<rparr>)],
     True, [''Matched pattern '' @ [CHR 0x27] @ ''^555'' @ [CHR 0x27] @ '' count 8''])
   \<and> match_list lit_match
     [(''444'', \<lparr>regex = ''444'', timestamp = ''2021-10-06 17:01'', count = 2, permanent = False, note_text = []\<rparr>)]
     ''5551234'' ''2021-11-02 09:30'' =
    ([(''444'', \<lparr>regex = ''444'', timestamp = ''2021-10-06 17:01'', count = 2, permanent = False, note_text = []\<rparr>)],
     False, [])"
  using match_list_first_hit [of lit_match
     "[(''444'', \<lparr>regex = ''444'', timestamp = ''2021-10-06 17:01'', count = 2, permanent = False, note_text = []\<rparr>),
      (''^555'', \<lparr>regex = ''555'', timestamp = ''2021-10-06 17:01'', count = 7, permanent = True, note_text = []\<rparr>),
      (''5551'', \<lparr>regex = ''5551'', timestamp = ''2021-10-06 17:01'', count = 0, permanent = False, note_text = []\<rparr>)]"
     "''5551234''" "''2021-11-02 09:30''"]
    match_list_first_hit [of lit_match
     "[(''444'', \<lparr>regex = ''444'', timestamp = ''2021-10-06 17:01'', count = 2, permanent = False, note_text = []\<rparr>)]"
     "''5551234''" "''2021-11-02 09:30''"]
  by (simp add: lit_match_def to_lower_def py_str_def digits.simps digit_char_def)

subsection \<open>Screening\<close>

lemma match_list_True_out:
  "match_list mtch lst s ts = (l, True, out) \<Longrightarrow>
   \<exists>line. out = [line] \<and> startswith line ''Matched pattern ''"
proof (induction lst arbitrary: l)
  case Nil
  then show ?case by simp
next
  case (Cons e lst)
  obtain k it where e: "e = (k, it)" by (cases e)
  obtain l' b out' where r: "match_list mtch lst s ts = (l', b, out')"
    by (cases "match_list mtch lst s ts")
  show ?case
  proof (cases "mtch (regex it) s")
    case True
    with Cons.prems e show ?thesis by (auto simp: startswith_def)
  next
    case False
    with Cons.prems e r have "b = True" "out' = out" by auto
    with r Cons.IH show ?thesis by blast
  qed
qed

lemma match_list_both_miss:
  assumes "\<not> matches mtch lst c"
  shows "match_list_both mtch lst ty (call_number c) (call_name c) ts =
         (lst, False, [''Checking '' @ ty @ '' list...''])"
  using assms by (simp add: matches_def match_list_both_def match_list_miss)

lemma match_list_both_hit:
  assumes "matches mtch lst c"
  shows "\<exists>al line. match_list_both mtch lst ty (call_number c) (call_name c) ts =
           (al, True, [''Checking '' @ ty @ '' list...'', line, ''Matched '' @ ty @ '' list''])
         \<and> startswith line ''Matched pattern ''"
proof (cases "list_ex (\<lambda>e. mtch (regex (snd e)) (call_number c)) lst")
  case True
  obtain l b out where r: "match_list mtch lst (call_number c) ts = (l, b, out)"
    by (cases "match_list mtch lst (call_number c) ts")
  with True match_list_result [of mtch lst "call_number c" ts] have b: "b" by simp
  with r match_list_True_out [of mtch lst "call_number c" ts l out]
  obtain line where "out = [line]" "startswith line ''Matched pattern ''"
    by auto
  with r b show ?thesis by (simp add: match_list_both_def)
next
  case False
  then have m: "match_list mtch lst (call_number c) ts = (lst, False, [])"
    by (rule match_list_miss)
  from False assms have n: "list_ex (\<lambda>e. mtch (regex (snd e)) (call_name c)) lst"
    by (simp add: matches_def)
  obtain l b out where r: "match_list mtch lst (call_name c) ts = (l, b, out)"
    by (cases "match_list mtch lst (call_name c) ts")
  with n match_list_result [of mtch lst "call_name c" ts] have b: "b" by simp
  with r match_list_True_out [of mtch lst "call_name c" ts l out]
  obtain line where "out = [line]" "startswith line ''Matched pattern ''"
    by auto
  with r b m show ?thesis by (simp add: match_list_both_def)
qed

lemma star_loop_sent:
  "star_loop ticks (buf, lr, sent0) = Some (r, cmds) \<Longrightarrow> \<exists>more. cmds = sent0 @ more"
proof (induction ticks arbitrary: buf lr sent0)
  case Nil
  then show ?case by simp
next
  case (Cons tk ticks)
  show ?case
  proof (cases "clock tk - lr < 10 \<and> \<not> py_in star_bytes buf")
    case True
    obtain b2 l2 s2 where b: "star_body tk (buf, lr, sent0) = (b2, l2, s2)"
      by (cases "star_body tk (buf, lr, sent0)")
    then have "\<exists>m. s2 = sent0 @ m"
      by (auto simp: star_body_def Let_def split: if_splits)
    moreover from True Cons.prems b have "star_loop ticks (b2, l2, s2) = Some (r, cmds)" by simp
    then have "\<exists>more. cmds = s2 @ more" by (rule Cons.IH)
    ultimately show ?thesis by auto
  next
    case False
    with Cons.prems show ?thesis by auto
  qed
qed

lemma wait_for_star_sent:
  "wait_for_star t0 ticks = Some (r, cmds) \<Longrightarrow> \<exists>more. cmds = ''AT+FCLASS=8'' # more"
  using star_loop_sent [of ticks "[]" t0 "[''AT+FCLASS=8'', ''AT+VIP'', ''AT+VLS=4'']" r cmds]
  by (auto simp: wait_for_star_def)

lemma screen_allow:
  assumes "matches mtch (allowlist st) c"
  shows "\<exists>al line. startswith line ''Matched pattern '' \<and>
     screen compile mtch year now t0 ticks c st =
       Some (log_call (call_timestamp year c) c ''allow''
         (st\<lparr>allowlist := al,
             console := console st @ [''Checking allow list...'', line, ''Matched allow list''],
             disk := update_list_match al (disk st) allowlist_file\<rparr>))"
proof -
  from match_list_both_hit [OF assms, of "''allow''" "call_timestamp year c"]
  obtain al line where
    "match_list_both mtch (allowlist st) ''allow'' (call_number c) (call_name c) (call_timestamp year c) =
       (al, True, [''Checking '' @ ''allow'' @ '' list...'', line, ''Matched '' @ ''allow'' @ '' list''])"
    and l: "startswith line ''Matched pattern ''"
    by blast
  then have "screen compile mtch year now t0 ticks c st =
       Some (log_call (call_timestamp year c) c ''allow''
         (st\<lparr>allowlist := al,
             console := console st @ [''Checking allow list...'', line, ''Matched allow list''],
             disk := update_list_match al (disk st) allowlist_file\<rparr>))"
    by (simp add: screen_def)
  with l show ?thesis by blast
qed

lemma screen_block:
  assumes "\<not> matches mtch (allowlist st) c" and "matches mtch (blocklist st) c"
  shows "\<exists>bl line. startswith line ''Matched pattern '' \<and>
     screen compile mtch year now t0 ticks c st =
       Some (log_call (call_timestamp year c) c ''block''
         (st\<lparr>blocklist := bl,
             console := console st @ [''Checking allow list...'', ''Checking block list...'', line,
                          ''Matched block list''],
             disk := update_list_match bl (disk st) blocklist_file,
             sent := sent st @ terminate_call\<rparr>))"
proof -
  from match_list_both_hit [OF assms(2), of "''block''" "call_timestamp year c"]
  obtain bl line where
    "match_list_both mtch (blocklist st) ''block'' (call_number c) (call_name c) (call_timestamp year c) =
       (bl, True, [''Checking '' @ ''block'' @ '' list...'', line, ''Matched '' @ ''block'' @ '' list''])"
    and l: "startswith line ''Matched pattern ''"
    by blast
  then have "screen compile mtch year now t0 ticks c st =
       Some (log_call (call_timestamp year c) c ''block''
         (st\<lparr>blocklist := bl,
             console := console st @ [''Checking allow list...'', ''Checking block list...'', line,
                          ''Matched block list''],
             disk := update_list_match bl (disk st) blocklist_file,
             sent := sent st @ terminate_call\<rparr>))"
    using match_list_both_miss [OF assms(1), of "''allow''" "call_timestamp year c"]
    by (simp add: screen_def)
  with l show ?thesis by blast
qed

lemma screen_no_match:
  assumes "\<not> matches mtch (allowlist st) c" and "\<not> matches mtch (blocklist st) c"
  shows "screen compile mtch year now t0 ticks c st =
     (case wait_for_star t0 ticks of
        None \<Rightarrow> None
      | Some (star, cmds) \<Rightarrow>
          if star
          then Some (log_call (call_timestamp year c) c
                 (snd (star_add compile now c
                    (st\<lparr>console := console st @ [''Checking allow list...'', ''Checking block list...''],
                        sent := sent st @ cmds\<rparr>)))
                 (fst (star_add compile now c
                    (st\<lparr>console := console st @ [''Checking allow list...'', ''Checking block list...''],
                        sent := sent st @ cmds\<rparr>))))
          else Some (log_call (call_timestamp year c) c ''no match''
                 (st\<lparr>console := console st @ [''Checking allow list...'', ''Checking block list...''],
                     sent := sent st @ cmds\<rparr>)))"
  using match_list_both_miss [OF assms(1), of "''allow''" "call_timestamp year c"]
    match_list_both_miss [OF assms(2), of "''block''" "call_timestamp year c"]
  by (simp add: screen_def split: option.splits prod.splits)

lemma star_add_frame:
  "console (fst (star_add compile now c st)) = console st"
  "sent (fst (star_add compile now c st)) = sent st"
  "allowlist (fst (star_add compile now c st)) = allowlist st"
  "disk (fst (star_add compile now c st)) calllog_file = disk st calllog_file"
  by (auto simp: star_add_def append_file_def blocklist_file_def calllog_file_def split: option.splits)

lemma star_add_outcome:
  "snd (star_add compile now c st) = ''no match'' \<or>
   snd (star_add compile now c st) = ''added to block by user * key''"
  by (auto simp: star_add_def split: option.splits)

lemma pattern_line_distinct:
  assumes "startswith line ''Matched pattern ''"
  shows "line \<noteq> ''Checking block list...''" "line \<noteq> ''Matched allow list''"
    "line \<noteq> ''Matched block list''" "line \<noteq> ''Checking allow list...''"
  using assms by (auto simp: startswith_def)

lemma wait_for_star_not_terminate:
  "wait_for_star t0 ticks = Some (r, cmds) \<Longrightarrow> cmds \<noteq> terminate_call \<and> cmds \<noteq> []"
  by (auto dest!: wait_for_star_sent simp: terminate_call_def)

lemma wait_for_star_cmds:
  "wait_for_star t0 ticks \<noteq> Some (star, [])"
  "wait_for_star t0 ticks \<noteq> Some (star, terminate_call)"
  using wait_for_star_not_terminate [of t0 ticks star] by auto

lemma log_call_frame:
  "console (log_call ts c m st) = console st" "sent (log_call ts c m st) = sent st"
  "allowlist (log_call ts c m st) = allowlist st" "blocklist (log_call ts c m st) = blocklist st"
  by (simp_all add: log_call_def)

lemma logged_log_call:
  "disk st1 calllog_file = disk st calllog_file \<Longrightarrow>
   logged year c outcome st (log_call (call_timestamp year c) c outcome st1)"
  by (simp add: logged_def log_call_def append_file_def)

lemma logged_outcome:
  "logged year c o1 st st' \<Longrightarrow> logged year c o2 st st' \<Longrightarrow> o1 = o2"
  by (simp add: logged_def log_line_def)

text \<open>
  C2. The screening returns exactly when a list matches or \<^verbatim>\<open>wait_for_star\<close>
  returns. When it returns: the allow list is checked first; the block list is checked
  exactly when the allow list did not match; the commands of \<^verbatim>\<open>terminate_call\<close> are
  what is sent to the modem exactly when the block list was checked and matched; after an
  allow match nothing is sent and the block list is as before; the commands sent are those
  of a call of \<^verbatim>\<open>wait_for_star\<close> exactly when neither list matched; and the call log has
  grown by the one line of this call, with outcome \<^verbatim>\<open>allow\<close> after an allow match,
  \<^verbatim>\<open>block\<close> after a block match, and \<^verbatim>\<open>no match\<close> or
  \<^verbatim>\<open>added to block by user * key\<close> otherwise.
\<close>

theorem screening_order:
  "((screen compile mtch year now t0 ticks c st \<noteq> None) =
      (matches mtch (allowlist st) c \<or> matches mtch (blocklist st) c \<or> wait_for_star t0 ticks \<noteq> None))
   \<and> (\<forall>st'. screen compile mtch year now t0 ticks c st = Some st' \<longrightarrow>
        take 1 (printed_by st st') = [''Checking allow list...'']
      \<and> ((''Checking block list...'' \<in> set (printed_by st st')) = (\<not> matches mtch (allowlist st) c))
      \<and> ((''Matched allow list'' \<in> set (printed_by st st')) = matches mtch (allowlist st) c)
      \<and> ((''Matched block list'' \<in> set (printed_by st st')) =
            (\<not> matches mtch (allowlist st) c \<and> matches mtch (blocklist st) c))
      \<and> ((sent_by st st' = terminate_call) = (''Matched block list'' \<in> set (printed_by st st')))
      \<and> (matches mtch (allowlist st) c \<longrightarrow> sent_by st st' = [] \<and> blocklist st' = blocklist st)
      \<and> ((\<exists>star. wait_for_star t0 ticks = Some (star, sent_by st st') \<and> sent_by st st' \<noteq> terminate_call) =
            (\<not> matches mtch (allowlist st) c \<and> \<not> matches mtch (blocklist st) c))
      \<and> (matches mtch (allowlist st) c \<longrightarrow> logged year c ''allow'' st st')
      \<and> (\<not> matches mtch (allowlist st) c \<and> matches mtch (blocklist st) c \<longrightarrow>
            logged year c ''block'' st st')
      \<and> (\<not> matches mtch (allowlist st) c \<and> \<not> matches mtch (blocklist st) c \<longrightarrow>
            logged year c ''no match'' st st' \<or> logged year c ''added to block by user * key'' st st'))"
proof (cases "matches mtch (allowlist st) c")
  case am: True
  from screen_allow [OF am, of compile year now t0 ticks]
  obtain al line where l: "startswith line ''Matched pattern ''"
    and s: "screen compile mtch year now t0 ticks c st =
       Some (log_call (call_timestamp year c) c ''allow''
         (st\<lparr>allowlist := al,
             console := console st @ [''Checking allow list...'', line, ''Matched allow list''],
             disk := update_list_match al (disk st) allowlist_file\<rparr>))"
    by blast
  have lg: "logged year c ''allow'' st (log_call (call_timestamp year c) c ''allow''
         (st\<lparr>allowlist := al,
             console := console st @ [''Checking allow list...'', line, ''Matched allow list''],
             disk := update_list_match al (disk st) allowlist_file\<rparr>))"
    by (rule logged_log_call)
      (simp add: update_list_match_def allowlist_file_def calllog_file_def)
  show ?thesis
    using am s lg pattern_line_distinct [OF l]
    by (simp add: printed_by_def sent_by_def log_call_frame terminate_call_def wait_for_star_cmds)
next
  case nam: False
  show ?thesis
  proof (cases "matches mtch (blocklist st) c")
    case bm: True
    from screen_block [OF nam bm, of compile year now t0 ticks]
    obtain bl line where l: "startswith line ''Matched pattern ''"
      and s: "screen compile mtch year now t0 ticks c st =
       Some (log_call (call_timestamp year c) c ''block''
         (st\<lparr>blocklist := bl,
             console := console st @ [''Checking allow list...'', ''Checking block list...'', line,
                          ''Matched block list''],
             disk := update_list_match bl (disk st) blocklist_file,
             sent := sent st @ terminate_call\<rparr>))"
      by blast
    have lg: "logged year c ''block'' st (log_call (call_timestamp year c) c ''block''
         (st\<lparr>blocklist := bl,
             console := console st @ [''Checking allow list...'', ''Checking block list...'', line,
                          ''Matched block list''],
             disk := update_list_match bl (disk st) blocklist_file,
             sent := sent st @ terminate_call\<rparr>))"
      by (rule logged_log_call)
        (simp add: update_list_match_def blocklist_file_def calllog_file_def)
    show ?thesis
      using nam bm s lg pattern_line_distinct [OF l]
      by (simp add: printed_by_def sent_by_def log_call_frame wait_for_star_cmds)
  next
    case nbm: False
    note s = screen_no_match [OF nam nbm, of compile year now t0 ticks]
    show ?thesis
    proof (cases "wait_for_star t0 ticks")
      case None
      with nam nbm s show ?thesis by simp
    next
      case (Some r)
      obtain star cmds where r: "r = (star, cmds)" by (cases r)
      note nt = wait_for_star_not_terminate [of t0 ticks star cmds]
      show ?thesis
      proof (cases star)
        case True
        let ?st1 = "st\<lparr>console := console st @ [''Checking allow list...'', ''Checking block list...''],
                        sent := sent st @ cmds\<rparr>"
        let ?m = "snd (star_add compile now c ?st1)"
        have lg: "logged year c ?m st (log_call (call_timestamp year c) c ?m (fst (star_add compile now c ?st1)))"
          by (rule logged_log_call) (simp add: star_add_frame)
        from star_add_outcome [of compile now c ?st1] lg
        have "logged year c ''no match'' st
                (log_call (call_timestamp year c) c ?m (fst (star_add compile now c ?st1)))
              \<or> logged year c ''added to block by user * key'' st
                (log_call (call_timestamp year c) c ?m (fst (star_add compile now c ?st1)))"
          by auto
        then show ?thesis
          using nam nbm s Some r True nt
          by (auto simp: printed_by_def sent_by_def log_call_frame star_add_frame)
      next
        case False
        let ?st1 = "st\<lparr>console := console st @ [''Checking allow list...'', ''Checking block list...''],
                        sent := sent st @ cmds\<rparr>"
        have lg: "logged year c ''no match'' st (log_call (call_timestamp year c) c ''no match'' ?st1)"
          by (rule logged_log_call) simp
        then show ?thesis
          using nam nbm s Some r False nt
          by (auto simp: printed_by_def sent_by_def log_call_frame)
      qed
    qed
  qed
qed

lemmas run_defs = screen_def match_list_both_def lit_match_def lit_compile_def special_chars_def
  to_lower_def call_timestamp_def log_call_def log_line_def space_fill_def append_file_def
  update_list_match_def match_file_line_def calllog_file_def blocklist_file_def allowlist_file_def
  Let_def eval_nat_numeral py_str_def digits.simps digit_char_def

text \<open>The block list holds \<^verbatim>\<open>^555\<close>, the allow list does not match, the number is
  \<^verbatim>\<open>5551234\<close>: the call is terminated and logged with outcome \<^verbatim>\<open>block\<close>.\<close>

theorem screening_order_witness:
  "sent (the (screen lit_compile lit_match ''2021'' ''2021-11-02 09:30'' 0 []
       \<lparr>call_date = ''0102'', call_time = ''1530'', call_name = ''DOE JOHN'', call_number = ''5551234''\<rparr>
       \<lparr>allowlist = [(''^444'', \<lparr>regex = ''444'', timestamp = ''2021-10-06 17:01'', count = 0,
                 permanent = True, note_text = ''office''\<rparr>)],
        blocklist = [(''^555'', \<lparr>regex = ''555'', timestamp = ''2021-10-06 17:01'', count = 2,
                 permanent = False, note_text = []\<rparr>)],
        disk = [calllog_file \<mapsto> []], sent = [], console = []\<rparr>)) = terminate_call
   \<and> disk (the (screen lit_compile lit_match ''2021'' ''2021-11-02 09:30'' 0 []
       \<lparr>call_date = ''0102'', call_time = ''1530'', call_name = ''DOE JOHN'', call_number = ''5551234''\<rparr>
       \<lparr>allowlist = [(''^444'', \<lparr>regex = ''444'', timestamp = ''2021-10-06 17:01'', count = 0,
                 permanent = True, note_text = ''office''\<rparr>)],
        blocklist = [(''^555'', \<lparr>regex = ''555'', timestamp = ''2021-10-06 17:01'', count = 2,
                 permanent = False, note_text = []\<rparr>)],
        disk = [calllog_file \<mapsto> []], sent = [], console = []\<rparr>)) calllog_file =
      Some (''2021-01-02 15:30  5551234     DOE JOHN          : block'' @ [LF])
   \<and> blocklist (the (screen lit_compile lit_match ''2021'' ''2021-11-02 09:30'' 0 []
       \<lparr>call_date = ''0102'', call_time = ''1530'', call_name = ''DOE JOHN'', call_number = ''5551234''\<rparr>
       \<lparr>allowlist = [(''^444'', \<lparr>regex = ''444'', timestamp = ''2021-10-06 17:01'', count = 0,
                 permanent = True, note_text = ''office''\<rparr>)],
        blocklist = [(''^555'', \<lparr>regex = ''555'', timestamp = ''2021-10-06 17:01'', count = 2,
                 permanent = False, note_text = []\<rparr>)],
        disk = [calllog_file \<mapsto> []], sent = [], console = []\<rparr>)) =
      [(''^555'', \<lparr>regex = ''555'', timestamp = ''2021-01-02 15:30'', count = 3,
                 permanent = False, note_text = []\<rparr>)]"
  using screening_order [of lit_compile lit_match "''2021''" "''2021-11-02 09:30''" 0 "[]"
       "\<lparr>call_date = ''0102'', call_time = ''1530'', call_name = ''DOE JOHN'', call_number = ''5551234''\<rparr>"
       "\<lparr>allowlist = [(''^444'', \<lparr>regex = ''444'', timestamp = ''2021-10-06 17:01'', count = 0,
                 permanent = True, note_text = ''office''\<rparr>)],
        blocklist = [(''^555'', \<lparr>regex = ''555'', timestamp = ''2021-10-06 17:01'', count = 2,
                 permanent = False, note_text = []\<rparr>)],
        disk = [calllog_file \<mapsto> []], sent = [], console = []\<rparr>"]
  by (simp add: run_defs)

lemma map_of_dict_set: "map_of (dict_set k v kvs) = (map_of kvs)(k \<mapsto> v)"
  by (induction kvs) auto

lemma map_of_dict_del: "map_of (dict_del k kvs) = (map_of kvs)(k := None)"
  by (induction kvs) (auto simp: dict_del_def)

lemmas star_defs = wait_for_star_def star_body_def star_bytes_def ring_bytes1_def ring_bytes2_def
  startswith_def LF_def star_ticks_def

lemmas load_defs = read_list_def file_lines_def dat_line_def match_line_def strip_newlines_def
  py_split_def py_splitn_def numeral_3_eq_3
  startswith_def LF_def CR_def lit_compile_def special_chars_def to_lower_def Let_def

lemma star_ticks_run:
  "wait_for_star 0 star_ticks = Some (True, [''AT+FCLASS=8'', ''AT+VIP'', ''AT+VLS=4'', ''ATH''])"
  by (simp add: star_defs)

text \<open>Appending one line to a file that consists of whole lines.\<close>

lemma universal_newlines_plain:
  "CR \<notin> set s \<Longrightarrow> universal_newlines s = s"
  by (induction s rule: universal_newlines.induct) auto

lemma universal_newlines_append:
  "b = [] \<or> hd b \<noteq> LF \<Longrightarrow> universal_newlines (a @ b) = universal_newlines a @ universal_newlines b"
proof (induction a rule: universal_newlines.induct)
  case 1
  then show ?case by simp
next
  case (2 c)
  then show ?case by (cases b) auto
next
  case (3 c d cs)
  then show ?case by auto
qed

lemma universal_newlines_last:
  "whole_lines a \<Longrightarrow> a \<noteq> [] \<Longrightarrow> universal_newlines a \<noteq> [] \<and> last (universal_newlines a) = LF"
  by (induction a rule: universal_newlines.induct) (auto simp: whole_lines_def split: if_splits)

lemma lines_from_append:
  "a \<noteq> [] \<Longrightarrow> last a = LF \<Longrightarrow> lines_from cur (a @ b) = lines_from cur a @ lines_from [] b"
proof (induction a arbitrary: cur)
  case Nil
  then show ?case by simp
next
  case (Cons c cs)
  show ?case
  proof (cases "cs = []")
    case True
    with Cons.prems show ?thesis by simp
  next
    case False
    with Cons show ?thesis by simp
  qed
qed

lemma lines_from_one:
  "LF \<notin> set t \<Longrightarrow> lines_from cur (t @ [LF]) = [cur @ t @ [LF]]"
  by (induction t arbitrary: cur) auto

lemma file_lines_append_line:
  assumes w: "whole_lines old" and t: "one_line t" and ne: "t \<noteq> []"
  shows "file_lines (old @ t @ [LF]) = file_lines old @ [t @ [LF]]"
proof -
  from t ne have h: "t @ [LF] = [] \<or> hd (t @ [LF]) \<noteq> LF"
    by (cases t) (auto simp: one_line_def)
  from t have p: "universal_newlines (t @ [LF]) = t @ [LF]"
    by (intro universal_newlines_plain) (auto simp: one_line_def LF_def CR_def)
  have u: "universal_newlines (old @ t @ [LF]) = universal_newlines old @ t @ [LF]"
    using universal_newlines_append [OF h, of old] p by simp
  from t have l: "lines_from [] (t @ [LF]) = [t @ [LF]]"
    using lines_from_one [of t "[]"] by (simp add: one_line_def)
  show ?thesis
  proof (cases "old = []")
    case True
    with l p show ?thesis by (simp add: file_lines_def)
  next
    case False
    with w have "universal_newlines old \<noteq> [] \<and> last (universal_newlines old) = LF"
      by (rule universal_newlines_last)
    then have "lines_from [] (universal_newlines old @ (t @ [LF])) =
        lines_from [] (universal_newlines old) @ lines_from [] (t @ [LF])"
      by (intro lines_from_append) auto
    with u l show ?thesis by (simp add: file_lines_def)
  qed
qed


lemma strip_key_subset: "set (strip_key line) \<subseteq> set line"
proof
  fix x
  assume x: "x \<in> set (strip_key line)"
  let ?r = "dropWhile is_space (dropWhile is_word line)"
  show "x \<in> set line"
  proof (cases "takeWhile is_word line \<noteq> [] \<and> ?r \<noteq> [] \<and> hd ?r = CHR ''=''")
    case True
    with x have "x \<in> set (dropWhile is_space (tl ?r))"
      by (simp add: strip_key_def Let_def)
    then have "x \<in> set (tl ?r)" by (rule set_dropWhileD)
    with True have "x \<in> set ?r" by (auto intro: list.set_sel(2))
    then have "x \<in> set (dropWhile is_word line)" by (rule set_dropWhileD)
    then show ?thesis by (rule set_dropWhileD)
  next
    case False
    then have "strip_key line = line"
      unfolding strip_key_def Let_def by (rule if_not_P)
    with x show ?thesis by simp
  qed
qed

lemma strip_key_one_line: "one_line line \<Longrightarrow> one_line (strip_key line)"
  using strip_key_subset [of line] by (auto simp: one_line_def)

lemma caller_id_line_one_line:
  "one_line line \<Longrightarrow> one_line (call_number c) \<Longrightarrow> one_line (call_number (fst (caller_id_line c line)))"
  by (simp add: caller_id_line_def strip_key_one_line)

text \<open>
  C8 as stated fails for an empty number (a Caller ID without \<^verbatim>\<open>NMBR\<close>): the empty
  pattern compiles, yet line 207 adds nothing and the outcome stays \<^verbatim>\<open>no match\<close>.
\<close>

theorem star_add_on_compile_counterexample:
  "lit_compile [] = Some []
   \<and> wait_for_star 0 star_ticks = Some (True, [''AT+FCLASS=8'', ''AT+VIP'', ''AT+VLS=4'', ''ATH''])
   \<and> blocklist (the (screen lit_compile lit_match ''2021'' ''2021-11-02 09:30'' 0 star_ticks
       \<lparr>call_date = ''0102'', call_time = ''1530'', call_name = ''O'', call_number = []\<rparr>
       \<lparr>allowlist = [], blocklist = [(''^555'', \<lparr>regex = ''555'', timestamp = ''2021-10-06 17:01'',
           count = 2, permanent = False, note_text = []\<rparr>)],
        disk = [blocklist_file \<mapsto> ''^555;;'' @ [LF]], sent = [], console = []\<rparr>)) =
      [(''^555'', \<lparr>regex = ''555'', timestamp = ''2021-10-06 17:01'', count = 2, permanent = False,
          note_text = []\<rparr>)]
   \<and> disk (the (screen lit_compile lit_match ''2021'' ''2021-11-02 09:30'' 0 star_ticks
       \<lparr>call_date = ''0102'', call_time = ''1530'', call_name = ''O'', call_number = []\<rparr>
       \<lparr>allowlist = [], blocklist = [(''^555'', \<lparr>regex = ''555'', timestamp = ''2021-10-06 17:01'',
           count = 2, permanent = False, note_text = []\<rparr>)],
        disk = [blocklist_file \<mapsto> ''^555;;'' @ [LF]], sent = [], console = []\<rparr>)) blocklist_file =
      Some (''^555;;'' @ [LF])
   \<and> disk (the (screen lit_compile lit_match ''2021'' ''2021-11-02 09:30'' 0 star_ticks
       \<lparr>call_date = ''0102'', call_time = ''1530'', call_name = ''O'', call_number = []\<rparr>
       \<lparr>allowlist = [], blocklist = [(''^555'', \<lparr>regex = ''555'', timestamp = ''2021-10-06 17:01'',
           count = 2, permanent = False, note_text = []\<rparr>)],
        disk = [blocklist_file \<mapsto> ''^555;;'' @ [LF]], sent = [], console = []\<rparr>)) calllog_file =
      Some (''2021-01-02 15:30              O                 : no match'' @ [LF])"
  by (simp add: run_defs star_ticks_run star_add_def)

text \<open>
  C8, amended. Neither list matched and \<^verbatim>\<open>wait_for_star\<close> returned true. When the
  number is not empty and compiles, the block list gets an entry under the number
  (timestamp \<open>now\<close>, count 0, not permanent, the fixed note); if moreover the number
  holds no line terminator (it is the text of a modem line) and the block list file is
  missing, empty or ends in a line terminator, the file gets one new line,
  \<^verbatim>\<open><number>;;added by user * key\<close>, after the lines it has; no file but that and the
  call log changes, and the outcome logged is \<^verbatim>\<open>added to block by user * key\<close>. When
  the number is empty or does not compile, the block list stays as it is, no file but the
  call log changes, and the outcome logged is \<^verbatim>\<open>no match\<close>. The allow list stays as it
  is in both cases. What the file gets when its last line has no line terminator is left
  open here.
\<close>

theorem star_key_add:
  assumes "\<not> matches mtch (allowlist st) c" and "\<not> matches mtch (blocklist st) c"
    and "wait_for_star t0 ticks = Some (True, cmds)"
  shows "\<exists>st'. screen compile mtch year now t0 ticks c st = Some st' \<and> allowlist st' = allowlist st \<and>
     (if call_number c \<noteq> [] \<and> compile (call_number c) \<noteq> None
      then blocklist st' =
             dict_set (call_number c)
               \<lparr>regex = the (compile (call_number c)), timestamp = now, count = 0, permanent = False,
                note_text = ''added by user * key''\<rparr> (blocklist st)
         \<and> map_of (blocklist st') (call_number c) =
             Some \<lparr>regex = the (compile (call_number c)), timestamp = now, count = 0, permanent = False,
                   note_text = ''added by user * key''\<rparr>
         \<and> (one_line (call_number c) \<and>
            whole_lines (case disk st blocklist_file of None \<Rightarrow> [] | Some old \<Rightarrow> old) \<longrightarrow>
              (\<exists>new. disk st' blocklist_file = Some new \<and>
                 file_lines new =
                   file_lines (case disk st blocklist_file of None \<Rightarrow> [] | Some old \<Rightarrow> old) @
                   [call_number c @ '';;added by user * key'' @ [LF]]))
         \<and> (\<forall>f. f \<noteq> blocklist_file \<and> f \<noteq> calllog_file \<longrightarrow> disk st' f = disk st f)
         \<and> logged year c ''added to block by user * key'' st st'
      else blocklist st' = blocklist st
         \<and> (\<forall>f. f \<noteq> calllog_file \<longrightarrow> disk st' f = disk st f)
         \<and> logged year c ''no match'' st st')"
proof -
  let ?st1 = "st\<lparr>console := console st @ [''Checking allow list...'', ''Checking block list...''],
                  sent := sent st @ cmds\<rparr>"
  let ?old = "case disk st blocklist_file of None \<Rightarrow> [] | Some old \<Rightarrow> old"
  let ?text = "call_number c @ '';;added by user * key''"
  have s: "screen compile mtch year now t0 ticks c st =
      Some (log_call (call_timestamp year c) c (snd (star_add compile now c ?st1))
              (fst (star_add compile now c ?st1)))"
    using screen_no_match [OF assms(1,2), of compile year now t0 ticks] assms(3) by simp
  show ?thesis
  proof (cases "call_number c \<noteq> [] \<and> compile (call_number c) \<noteq> None")
    case True
    then obtain r where r: "compile (call_number c) = Some r" by auto
    have fl: "file_lines (?old @ ?text @ [LF]) = file_lines ?old @ [?text @ [LF]]"
      if "one_line (call_number c)" and "whole_lines ?old"
      using file_lines_append_line [OF that(2), of ?text] that(1) True
      by (simp add: one_line_def LF_def CR_def)
    from True r fl show ?thesis
      unfolding s
      by (simp add: star_add_def log_call_def logged_def append_file_def map_of_dict_set
          blocklist_file_def calllog_file_def)
  next
    case False
    then have "star_add compile now c ?st1 = (?st1, ''no match'')"
      by (auto simp: star_add_def split: option.splits)
    with False show ?thesis
      unfolding s
      by (auto simp: log_call_def logged_def append_file_def)
  qed
qed

text \<open>The number \<^verbatim>\<open>8005551234\<close> is added to a block list whose file holds the line
  \<^verbatim>\<open>^555;;\<close>: the file then has two lines. The number \<^verbatim>\<open>+15551234\<close> does not
  compile: nothing is added.\<close>

theorem star_key_add_witness:
  "blocklist (the (screen lit_compile lit_match ''2021'' ''2021-11-02 09:30'' 0 star_ticks
       \<lparr>call_date = ''0102'', call_time = ''1530'', call_name = ''O'', call_number = ''8005551234''\<rparr>
       \<lparr>allowlist = [], blocklist = [(''^555'', \<lparr>regex = ''555'', timestamp = ''2021-10-06 17:01'',
           count = 2, permanent = False, note_text = []\<rparr>)],
        disk = [blocklist_file \<mapsto> ''^555;;'' @ [LF]], sent = [], console = []\<rparr>)) =
      [(''^555'', \<lparr>regex = ''555'', timestamp = ''2021-10-06 17:01'', count = 2, permanent = False,
          note_text = []\<rparr>),
       (''8005551234'', \<lparr>regex = ''8005551234'', timestamp = ''2021-11-02 09:30'', count = 0,
          permanent = False, note_text = ''added by user * key''\<rparr>)]
   \<and> map_option file_lines
       (disk (the (screen lit_compile lit_match ''2021'' ''2021-11-02 09:30'' 0 star_ticks
         \<lparr>call_date = ''0102'', call_time = ''1530'', call_name = ''O'', call_number = ''8005551234''\<rparr>
         \<lparr>allowlist = [], blocklist = [(''^555'', \<lparr>regex = ''555'', timestamp = ''2021-10-06 17:01'',
             count = 2, permanent = False, note_text = []\<rparr>)],
          disk = [blocklist_file \<mapsto> ''^555;;'' @ [LF]], sent = [], console = []\<rparr>)) blocklist_file) =
      Some [''^555;;'' @ [LF], ''8005551234;;added by user * key'' @ [LF]]
   \<and> lit_compile ''+15551234'' = None
   \<and> blocklist (the (screen lit_compile lit_match ''2021'' ''2021-11-02 09:30'' 0 star_ticks
       \<lparr>call_date = ''0102'', call_time = ''1530'', call_name = ''O'', call_number = ''+15551234''\<rparr>
       \<lparr>allowlist = [], blocklist = [(''^555'', \<lparr>regex = ''555'', timestamp = ''2021-10-06 17:01'',
           count = 2, permanent = False, note_text = []\<rparr>)],
        disk = [blocklist_file \<mapsto> ''^555;;'' @ [LF]], sent = [], console = []\<rparr>)) =
      [(''^555'', \<lparr>regex = ''555'', timestamp = ''2021-10-06 17:01'', count = 2, permanent = False,
          note_text = []\<rparr>)]
   \<and> disk (the (screen lit_compile lit_match ''2021'' ''2021-11-02 09:30'' 0 star_ticks
       \<lparr>call_date = ''0102'', call_time = ''1530'', call_name = ''O'', call_number = ''+15551234''\<rparr>
       \<lparr>allowlist = [], blocklist = [(''^555'', \<lparr>regex = ''555'', timestamp = ''2021-10-06 17:01'',
           count = 2, permanent = False, note_text = []\<rparr>)],
        disk = [blocklist_file \<mapsto> ''^555;;'' @ [LF]], sent = [], console = []\<rparr>)) calllog_file =
      Some (''2021-01-02 15:30  +15551234   O                 : no match'' @ [LF])"
proof -
  let ?st = "\<lparr>allowlist = [], blocklist = [(''^555'', \<lparr>regex = ''555'', timestamp = ''2021-10-06 17:01'',
           count = 2, permanent = False, note_text = []\<rparr>)],
        disk = [blocklist_file \<mapsto> ''^555;;'' @ [LF]], sent = [], console = []\<rparr> :: string state"
  let ?c1 = "\<lparr>call_date = ''0102'', call_time = ''1530'', call_name = ''O'', call_number = ''8005551234''\<rparr>"
  let ?c2 = "\<lparr>call_date = ''0102'', call_time = ''1530'', call_name = ''O'', call_number = ''+15551234''\<rparr>"
  have a1: "\<not> matches lit_match (allowlist ?st) ?c1" "\<not> matches lit_match (blocklist ?st) ?c1"
    by (simp_all add: matches_def lit_match_def to_lower_def)
  have a2: "\<not> matches lit_match (allowlist ?st) ?c2" "\<not> matches lit_match (blocklist ?st) ?c2"
    by (simp_all add: matches_def lit_match_def to_lower_def)
  have c1: "lit_compile ''8005551234'' = Some ''8005551234''"
    by (simp add: lit_compile_def special_chars_def to_lower_def)
  have c2: "lit_compile ''+15551234'' = None"
    by (simp add: lit_compile_def special_chars_def)
  have o1: "one_line (call_number ?c1)"
    by (simp add: one_line_def LF_def CR_def)
  have w1: "whole_lines (case disk ?st blocklist_file of None \<Rightarrow> [] | Some old \<Rightarrow> old)"
    by (simp add: whole_lines_def)
  have f1: "file_lines (case disk ?st blocklist_file of None \<Rightarrow> [] | Some old \<Rightarrow> old) = [''^555;;'' @ [LF]]"
    by (simp add: file_lines_def LF_def CR_def)
  have l2: "log_line (call_timestamp ''2021'' ?c2) ?c2 ''no match'' =
      ''2021-01-02 15:30  +15551234   O                 : no match'' @ [LF]"
    by (simp add: log_line_def space_fill_def call_timestamp_def eval_nat_numeral)
  from star_key_add [OF a1 star_ticks_run, of lit_compile "''2021''" "''2021-11-02 09:30''"] c1 o1 w1
  obtain s1 new where s1: "screen lit_compile lit_match ''2021'' ''2021-11-02 09:30'' 0 star_ticks ?c1 ?st = Some s1"
    and b1: "blocklist s1 = dict_set ''8005551234''
               \<lparr>regex = ''8005551234'', timestamp = ''2021-11-02 09:30'', count = 0, permanent = False,
                note_text = ''added by user * key''\<rparr> (blocklist ?st)"
    and d1: "disk s1 blocklist_file = Some new"
    and n1: "file_lines new =
               file_lines (case disk ?st blocklist_file of None \<Rightarrow> [] | Some old \<Rightarrow> old) @
               [''8005551234'' @ '';;added by user * key'' @ [LF]]"
    by force
  from star_key_add [OF a2 star_ticks_run, of lit_compile "''2021''" "''2021-11-02 09:30''"] c2
  obtain s2 where s2: "screen lit_compile lit_match ''2021'' ''2021-11-02 09:30'' 0 star_ticks ?c2 ?st = Some s2"
    and b2: "blocklist s2 = blocklist ?st"
    and d2: "logged ''2021'' ?c2 ''no match'' ?st s2"
    by force
  from d2 l2 have d2': "disk s2 calllog_file =
      Some (''2021-01-02 15:30  +15551234   O                 : no match'' @ [LF])"
    by (simp add: logged_def calllog_file_def blocklist_file_def)
  from n1 f1 have n1': "file_lines new = [''^555;;'' @ [LF], ''8005551234;;added by user * key'' @ [LF]]"
    by simp
  show ?thesis
    unfolding s1 s2 option.sel
    using b1 d1 n1' b2 d2' c2 by simp
qed

text \<open>
  Lines 213 to 215 do not look at the end of the file. When the last line of the block
  list file has no line terminator, the text is put behind that line: the file gets no new
  line, and a later \<^verbatim>\<open>read_list\<close> finds the number in the note of the last entry and
  not as an entry of its own.
\<close>

lemma star_add_after_unfinished_line:
  "disk (the (screen lit_compile lit_match ''2021'' ''2021-11-02 09:30'' 0 star_ticks
       \<lparr>call_date = ''0102'', call_time = ''1530'', call_name = ''O'', call_number = ''8005551234''\<rparr>
       \<lparr>allowlist = [], blocklist = [(''^555'', \<lparr>regex = ''555'', timestamp = ''2021-10-06 17:01'',
           count = 2, permanent = False, note_text = []\<rparr>)],
        disk = [blocklist_file \<mapsto> ''^555;;''], sent = [], console = []\<rparr>)) blocklist_file =
      Some (''^555;;8005551234;;added by user * key'' @ [LF])
   \<and> read_list lit_compile ''2021-11-02 00:00''
        [''blocklist.dat'' \<mapsto> ''^555;;8005551234;;added by user * key'' @ [LF]] ''blocklist.dat'' =
      Inr [(''^555'', \<lparr>regex = ''555'', timestamp = ''2021-11-02 00:00'', count = 0, permanent = False,
                       note_text = ''8005551234;;added by user * key''\<rparr>)]"
  by (simp add: run_defs star_ticks_run star_add_def load_defs)

subsection \<open>Every key of a list compiles\<close>

lemma list_all_dict_set:
  "list_all P kvs \<Longrightarrow> P (k, v) \<Longrightarrow> list_all P (dict_set k v kvs)"
  by (induction kvs) auto

lemma list_all_dict_del:
  "list_all P kvs \<Longrightarrow> list_all P (dict_del k kvs)"
  by (simp add: dict_del_def list_all_iff)

lemma fold_err_invariant:
  assumes "\<And>x s s'. P s \<Longrightarrow> f x s = Inr s' \<Longrightarrow> P s'"
  shows "P s \<Longrightarrow> fold_err f xs s = Inr s' \<Longrightarrow> P s'"
proof (induction xs arbitrary: s)
  case Nil
  then show ?case by simp
next
  case (Cons x xs)
  from Cons.prems(2) obtain s1 where s1: "f x s = Inr s1" and r: "fold_err f xs s1 = Inr s'"
    by (auto split: sum.splits)
  from Cons.prems(1) s1 have "P s1" by (rule assms)
  then show ?case using r by (rule Cons.IH)
qed

lemma dat_line_compiled:
  "compiled compile lst \<Longrightarrow> compiled compile (dat_line compile now line lst)"
  by (auto simp: dat_line_def compiled_def Let_def list_all_dict_set split: prod.splits option.splits)

lemma dat_line_dropped:
  "compile (line_pattern line) = None \<Longrightarrow> dat_line compile now line lst = lst"
  by (auto simp: dat_line_def line_pattern_def Let_def split: prod.splits option.splits)

lemma read_dat_compiled:
  "compiled compile lst \<Longrightarrow> compiled compile (read_dat compile now lines lst)"
  by (induction lines arbitrary: lst) (auto simp: dat_line_compiled)

lemma map_of_compiled:
  "compiled compile lst \<Longrightarrow> map_of lst k = Some it \<Longrightarrow> compile k = Some (regex it)"
  by (auto simp: compiled_def list_all_iff dest!: map_of_SomeD)

lemma match_line_compiled:
  assumes "compiled compile lst" and "match_line line lst = Inr lst'"
  shows "compiled compile lst'"
proof (cases "length (py_splitn (CHR '';'') 3 (strip_newlines line)) = 3")
  case False
  with assms show ?thesis by (simp add: match_line_def)
next
  case len: True
  let ?k = "py_splitn (CHR '';'') 3 (strip_newlines line) ! 2"
  show ?thesis
  proof (cases "map_of lst ?k")
    case None
    with assms len show ?thesis by (simp add: match_line_def)
  next
    case (Some it)
    with assms(1) have c: "compile ?k = Some (regex it)" by (rule map_of_compiled)
    from assms(2) len Some obtain n where
      "lst' = dict_set ?k (it\<lparr>timestamp := py_splitn (CHR '';'') 3 (strip_newlines line) ! 0, count := n\<rparr>) lst"
      by (auto simp: match_line_def Let_def split: option.splits)
    with assms(1) c show ?thesis
      by (simp add: compiled_def list_all_dict_set)
  qed
qed

lemma read_list_compiled:
  assumes "read_list compile now fs list_file = Inr lst"
  shows "compiled compile lst"
proof -
  have e: "compiled compile []" by (simp add: compiled_def)
  show ?thesis
  proof (cases "fs list_file")
    case None
    with assms e show ?thesis by (simp add: read_list_def)
  next
    case (Some content)
    have d: "compiled compile (read_dat compile now (file_lines content) [])"
      using e by (rule read_dat_compiled)
    show ?thesis
    proof (cases "fs (list_file @ ''-match'')")
      case None
      with assms Some d show ?thesis by (simp add: read_list_def)
    next
      case (Some history)
      with assms \<open>fs list_file = Some content\<close>
      have "fold_err match_line (file_lines history) (read_dat compile now (file_lines content) []) = Inr lst"
        by (simp add: read_list_def)
      with d show ?thesis
        by (rule fold_err_invariant [where P = "compiled compile", rotated])
          (rule match_line_compiled)
    qed
  qed
qed

lemma match_list_compiled:
  "compiled compile lst \<Longrightarrow> compiled compile (fst (match_list mtch lst s ts))"
proof (induction lst)
  case Nil
  then show ?case by simp
next
  case (Cons e lst)
  obtain k it where e: "e = (k, it)" by (cases e)
  obtain l b out where r: "match_list mtch lst s ts = (l, b, out)"
    by (cases "match_list mtch lst s ts")
  from Cons e r show ?case by (auto simp: compiled_def)
qed

lemma match_list_both_compiled:
  assumes "compiled compile lst"
  shows "compiled compile (fst (match_list_both mtch lst ty number name ts))"
proof -
  obtain l1 b1 o1 where r1: "match_list mtch lst number ts = (l1, b1, o1)"
    by (cases "match_list mtch lst number ts")
  obtain l2 b2 o2 where r2: "match_list mtch l1 name ts = (l2, b2, o2)"
    by (cases "match_list mtch l1 name ts")
  from assms r1 match_list_compiled [of compile lst mtch number ts] have c1: "compiled compile l1"
    by simp
  with r2 match_list_compiled [of compile l1 mtch name ts] have c2: "compiled compile l2"
    by simp
  from r1 r2 c1 c2 show ?thesis
    by (cases b1; cases b2) (simp_all add: match_list_both_def)
qed

lemma star_add_compiled:
  "compiled compile (blocklist st) \<Longrightarrow> compiled compile (blocklist (fst (star_add compile now c st)))"
  by (auto simp: star_add_def compiled_def list_all_dict_set split: option.splits)

lemma star_add_rejected:
  "compile (call_number c) = None \<Longrightarrow> star_add compile now c st = (st, ''no match'')"
  by (simp add: star_add_def)

lemma purge_line_compiled:
  "compiled compile (fst st) \<Longrightarrow> purge_line ptime now days line st = Inr st' \<Longrightarrow>
   compiled compile (fst st')"
  by (auto simp: purge_line_def Let_def compiled_def list_all_dict_del
      split: prod.splits option.splits if_splits)

lemma purge_list_compiled:
  assumes "compiled compile lst" and "purge_list ptime now lst fs list_file days = Inr (lst', fs')"
  shows "compiled compile lst'"
proof (cases "fs list_file")
  case None
  with assms show ?thesis by (simp add: purge_list_def)
next
  case (Some content)
  with assms(2) obtain nc ch where
    f: "fold_err (purge_line ptime now days) (file_lines content) (lst, [], False) = Inr (lst', nc, ch)"
    by (auto simp: purge_list_def split: sum.splits if_splits)
  have "compiled compile (fst (lst, [] :: string, False))" using assms(1) by simp
  from this f have "compiled compile (fst (lst', nc, ch))"
    by (rule fold_err_invariant [where P = "\<lambda>s. compiled compile (fst s)", rotated])
      (rule purge_line_compiled)
  then show ?thesis by simp
qed

lemma screen_compiled:
  assumes "compiled compile (allowlist st)" and "compiled compile (blocklist st)"
    and "screen compile mtch year now t0 ticks c st = Some st'"
  shows "compiled compile (allowlist st') \<and> compiled compile (blocklist st')"
proof -
  let ?ts = "call_timestamp year c"
  obtain al am out where a: "match_list_both mtch (allowlist st) ''allow'' (call_number c) (call_name c) ?ts = (al, am, out)"
    by (cases "match_list_both mtch (allowlist st) ''allow'' (call_number c) (call_name c) ?ts")
  obtain bl bm out2 where b: "match_list_both mtch (blocklist st) ''block'' (call_number c) (call_name c) ?ts = (bl, bm, out2)"
    by (cases "match_list_both mtch (blocklist st) ''block'' (call_number c) (call_name c) ?ts")
  from assms(1) a match_list_both_compiled [of compile "allowlist st" mtch "''allow''" "call_number c" "call_name c" ?ts]
  have ca: "compiled compile al" by simp
  from assms(2) b match_list_both_compiled [of compile "blocklist st" mtch "''block''" "call_number c" "call_name c" ?ts]
  have cb: "compiled compile bl" by simp
  show ?thesis
  proof (cases am)
    case True
    with assms a ca show ?thesis by (auto simp: screen_def log_call_def)
  next
    case nam: False
    show ?thesis
    proof (cases bm)
      case True
      with assms a b ca cb nam show ?thesis by (auto simp: screen_def log_call_def)
    next
      case nbm: False
      from assms(3) a b nam nbm obtain star cmds where w: "wait_for_star t0 ticks = Some (star, cmds)"
        by (auto simp: screen_def Let_def split: option.splits)
      let ?st1 = "st\<lparr>allowlist := al, blocklist := bl, console := console st @ out @ out2,
                      sent := sent st @ cmds\<rparr>"
      have s1: "compiled compile (blocklist (fst (star_add compile now c ?st1)))"
        using cb by (intro star_add_compiled) simp
      have s2: "allowlist (fst (star_add compile now c ?st1)) = al"
        by (simp add: star_add_def split: option.splits)
      from assms(3) a b nam nbm w ca cb s1 s2 show ?thesis
        by (cases star) (auto simp: screen_def Let_def log_call_def split: prod.splits)
    qed
  qed
qed

text \<open>
  C9. Every entry of a list holds the compiled form of its key, so every key compiles.
  A list returned by \<^verbatim>\<open>read_list\<close> (load and reload) has the property; a line of the
  list file whose pattern does not compile leaves the list as it is; \<^verbatim>\<open>match_list\<close>,
  \<^verbatim>\<open>match_list_both\<close>, the addition after a star key, \<^verbatim>\<open>purge_list\<close> and the
  screening of a call as a whole keep the property; and a number that does not compile is
  not added after a star key.
\<close>

theorem every_key_compiles:
  "(read_list compile now fs list_file = Inr lst \<longrightarrow> compiled compile lst)
   \<and> (compile (line_pattern line) = None \<longrightarrow> dat_line compile now line lst0 = lst0)
   \<and> (compiled compile lst0 \<longrightarrow> list_all (\<lambda>e. compile (fst e) \<noteq> None) lst0)
   \<and> (compiled compile lst0 \<longrightarrow>
        compiled compile (fst (match_list mtch lst0 s ts))
        \<and> compiled compile (fst (match_list_both mtch lst0 ty number name ts)))
   \<and> (compile (call_number c) = None \<longrightarrow> star_add compile now c st = (st, ''no match''))
   \<and> (compiled compile (blocklist st) \<longrightarrow>
        compiled compile (blocklist (fst (star_add compile now c st))))
   \<and> (compiled compile lst0 \<and> purge_list ptime pnow lst0 fs list_file days = Inr (lst1, fs1) \<longrightarrow>
        compiled compile lst1)
   \<and> (compiled compile (allowlist st) \<and> compiled compile (blocklist st)
        \<and> screen compile mtch year now t0 ticks c st = Some st' \<longrightarrow>
        compiled compile (allowlist st') \<and> compiled compile (blocklist st'))"
proof (intro conjI impI)
  assume "read_list compile now fs list_file = Inr lst"
  then show "compiled compile lst" by (rule read_list_compiled)
next
  assume "compile (line_pattern line) = None"
  then show "dat_line compile now line lst0 = lst0" by (rule dat_line_dropped)
next
  assume "compiled compile lst0"
  then show "list_all (\<lambda>e. compile (fst e) \<noteq> None) lst0"
    by (auto simp: compiled_def list_all_iff)
next
  assume "compiled compile lst0"
  then show "compiled compile (fst (match_list mtch lst0 s ts))" by (rule match_list_compiled)
next
  assume "compiled compile lst0"
  then show "compiled compile (fst (match_list_both mtch lst0 ty number name ts))"
    by (rule match_list_both_compiled)
next
  assume "compile (call_number c) = None"
  then show "star_add compile now c st = (st, ''no match'')" by (rule star_add_rejected)
next
  assume "compiled compile (blocklist st)"
  then show "compiled compile (blocklist (fst (star_add compile now c st)))"
    by (rule star_add_compiled)
next
  assume "compiled compile lst0 \<and> purge_list ptime pnow lst0 fs list_file days = Inr (lst1, fs1)"
  then show "compiled compile lst1" by (auto intro: purge_list_compiled)
next
  assume a: "compiled compile (allowlist st) \<and> compiled compile (blocklist st)
        \<and> screen compile mtch year now t0 ticks c st = Some st'"
  then show "compiled compile (allowlist st')" using screen_compiled [of compile st mtch year now t0 ticks c st']
    by simp
  from a show "compiled compile (blocklist st')" using screen_compiled [of compile st mtch year now t0 ticks c st']
    by simp
qed

text \<open>A list file whose second line holds the pattern \<^verbatim>\<open>+1800\<close>: the entry is dropped
  at load time.\<close>

theorem every_key_compiles_witness:
  "lit_compile (line_pattern (''+1800;p;bad'' @ [LF])) = None
   \<and> read_list lit_compile ''2021-11-02 09:30''
         [''blocklist.dat'' \<mapsto> ''^555;;spam'' @ [LF] @ ''+1800;p;bad'' @ [LF] @ ''abc;P;friend;x'' @ [LF]]
         ''blocklist.dat'' =
       Inr [(''^555'', \<lparr>regex = ''555'', timestamp = ''2021-11-02 09:30'', count = 0,
                        permanent = False, note_text = ''spam''\<rparr>),
            (''abc'', \<lparr>regex = ''abc'', timestamp = ''2021-11-02 09:30'', count = 0,
                       permanent = True, note_text = ''friend;x''\<rparr>)]
   \<and> compiled lit_compile
        [(''^555'', \<lparr>regex = ''555'', timestamp = ''2021-11-02 09:30'', count = 0,
                     permanent = False, note_text = ''spam''\<rparr>),
         (''abc'', \<lparr>regex = ''abc'', timestamp = ''2021-11-02 09:30'', count = 0,
                    permanent = True, note_text = ''friend;x''\<rparr>)]"
proof -
  have r: "read_list lit_compile ''2021-11-02 09:30''
         [''blocklist.dat'' \<mapsto> ''^555;;spam'' @ [LF] @ ''+1800;p;bad'' @ [LF] @ ''abc;P;friend;x'' @ [LF]]
         ''blocklist.dat'' =
       Inr [(''^555'', \<lparr>regex = ''555'', timestamp = ''2021-11-02 09:30'', count = 0,
                        permanent = False, note_text = ''spam''\<rparr>),
            (''abc'', \<lparr>regex = ''abc'', timestamp = ''2021-11-02 09:30'', count = 0,
                       permanent = True, note_text = ''friend;x''\<rparr>)]"
    by (simp add: load_defs)
  have p: "lit_compile (line_pattern (''+1800;p;bad'' @ [LF])) = None"
    by (simp add: line_pattern_def load_defs)
  from r p every_key_compiles [of lit_compile "''2021-11-02 09:30''"
      "[''blocklist.dat'' \<mapsto> ''^555;;spam'' @ [LF] @ ''+1800;p;bad'' @ [LF] @ ''abc;P;friend;x'' @ [LF]]"
      "''blocklist.dat''"
      "[(''^555'', \<lparr>regex = ''555'', timestamp = ''2021-11-02 09:30'', count = 0,
                        permanent = False, note_text = ''spam''\<rparr>),
            (''abc'', \<lparr>regex = ''abc'', timestamp = ''2021-11-02 09:30'', count = 0,
                       permanent = True, note_text = ''friend;x''\<rparr>)]"]
  show ?thesis by simp
qed

subsection \<open>Purging\<close>

lemma distinct_map_of:
  "distinct (map fst kvs) \<Longrightarrow> (k, v) \<in> set kvs \<Longrightarrow> map_of kvs k = Some v"
  by simp

lemma purge_line_alt:
  "purge_line ptime now days line (lst, nc, ch) =
     (if startswith line ''#'' then Inr (lst, nc @ line, ch)
      else case map_of lst (line_pattern line) of
             None \<Rightarrow> Inr (lst, nc @ line, ch)
           | Some it \<Rightarrow>
               (case ptime (timestamp it) of
                  None \<Rightarrow> Inl ValueError
                | Some t \<Rightarrow>
                    if \<not> permanent it \<and> now - t > of_int days * day_secs
                    then Inr (dict_del (line_pattern line) lst, nc @ annotation it @ line, True)
                    else Inr (lst, nc @ line, ch)))"
proof -
  obtain rx flds where j: "join_escaped (hd (py_split (CHR '';'') (strip_newlines line)))
      (tl (py_split (CHR '';'') (strip_newlines line))) = (rx, flds)"
    by (cases "join_escaped (hd (py_split (CHR '';'') (strip_newlines line)))
      (tl (py_split (CHR '';'') (strip_newlines line)))")
  then have "line_pattern line = rx" by (simp add: line_pattern_def)
  with j show ?thesis
    by (auto simp: purge_line_def Let_def annotation_def split: option.splits)
qed

lemma purge_line_step:
  assumes d: "distinct (map fst lst)"
    and p: "purge_line ptime now days line (lst, nc, ch) = Inr (lst', nc', ch')"
  shows "lst' = filter (\<lambda>e. \<not> (entry_line (fst e) line \<and> expired ptime now days (snd e))) lst
    \<and> ch' = (ch \<or> lst' \<noteq> lst)
    \<and> (if lst' = lst then nc' = nc @ line
         else \<exists>it. (line_pattern line, it) \<in> set lst \<and> (line_pattern line, it) \<notin> set lst'
                \<and> expired ptime now days it \<and> \<not> startswith line ''#''
                \<and> nc' = nc @ annotation it @ line)"
proof -
  let ?k = "line_pattern line"
  let ?F = "\<lambda>e. \<not> (entry_line (fst e) line \<and> expired ptime now days (snd e))"
  have keep: "filter ?F lst = lst" if "\<And>it. (?k, it) \<in> set lst \<Longrightarrow> startswith line ''#'' \<or> \<not> expired ptime now days it"
    using that by (auto simp: filter_id_conv entry_line_def)
  show ?thesis
  proof (cases "startswith line ''#''")
    case True
    with p have "lst' = lst" "nc' = nc @ line" "ch' = ch"
      by (simp_all add: purge_line_alt)
    with keep True show ?thesis by simp
  next
    case nc: False
    show ?thesis
    proof (cases "map_of lst ?k")
      case None
      with p nc have r: "lst' = lst" "nc' = nc @ line" "ch' = ch"
        by (simp_all add: purge_line_alt)
      from None have "\<And>it. (?k, it) \<notin> set lst"
        by (metis map_of_eq_None_iff d fst_conv image_eqI)
      with keep r show ?thesis by simp
    next
      case (Some it)
      then have mem: "(?k, it) \<in> set lst" by (rule map_of_SomeD)
      have uniq: "\<And>it'. (?k, it') \<in> set lst \<Longrightarrow> it' = it"
        using d Some by (metis distinct_map_of option.inject)
      from p nc Some obtain t where t: "ptime (timestamp it) = Some t"
        by (auto simp: purge_line_alt split: option.splits)
      show ?thesis
      proof (cases "\<not> permanent it \<and> now - t > of_int days * day_secs")
        case True
        with t have e: "expired ptime now days it" by (simp add: expired_def)
        from p nc Some t True have r: "lst' = dict_del ?k lst" "nc' = nc @ annotation it @ line" "ch'"
          by (simp_all add: purge_line_alt)
        have f: "dict_del ?k lst = filter ?F lst"
          unfolding dict_del_def
          by (rule filter_cong [OF refl]) (use uniq e nc in \<open>auto simp: entry_line_def\<close>)
        have out: "(?k, it) \<notin> set (dict_del ?k lst)"
          by (simp add: dict_del_def)
        with mem have ne: "dict_del ?k lst \<noteq> lst" by metis
        from r f ne out mem e nc show ?thesis by auto
      next
        case False
        with t have e: "\<not> expired ptime now days it" by (auto simp: expired_def)
        from p nc Some t False have r: "lst' = lst" "nc' = nc @ line" "ch' = ch"
          by (auto simp: purge_line_alt)
        from uniq e have "\<And>it'. (?k, it') \<in> set lst \<Longrightarrow> startswith line ''#'' \<or> \<not> expired ptime now days it'"
          by auto
        with keep r show ?thesis by simp
      qed
    qed
  qed
qed

lemma purged_line_mono:
  "set l1 \<subseteq> set lst \<Longrightarrow> purged_line ptime now days l1 old new \<Longrightarrow>
   purged_line ptime now days lst old new"
  by (auto simp: purged_line_def)

lemma purge_fold:
  assumes "distinct (map fst lst)"
    and "fold_err (purge_line ptime now days) lines (lst, nc, ch) = Inr (lst', nc', ch')"
  shows "lst' = filter (\<lambda>e. \<not> (list_ex (entry_line (fst e)) lines \<and> expired ptime now days (snd e))) lst
    \<and> ch' = (ch \<or> lst' \<noteq> lst)
    \<and> (\<exists>new_lines. nc' = nc @ concat new_lines
          \<and> list_all2 (purged_line ptime now days lst) lines new_lines
          \<and> (\<forall>e \<in> set lst. e \<notin> set lst' \<longrightarrow>
                (\<exists>line \<in> set lines. entry_line (fst e) line \<and> annotation (snd e) @ line \<in> set new_lines)))"
  using assms
proof (induction lines arbitrary: lst nc ch)
  case Nil
  then show ?case by simp
next
  case (Cons line rest)
  let ?P1 = "\<lambda>e. \<not> (entry_line (fst e) line \<and> expired ptime now days (snd e))"
  let ?Pr = "\<lambda>e. \<not> (list_ex (entry_line (fst e)) rest \<and> expired ptime now days (snd e))"
  from Cons.prems(2) obtain l1 n1 c1 where
    p: "purge_line ptime now days line (lst, nc, ch) = Inr (l1, n1, c1)"
    and f: "fold_err (purge_line ptime now days) rest (l1, n1, c1) = Inr (lst', nc', ch')"
    by (auto split: sum.splits)
  note st = purge_line_step [OF Cons.prems(1) p]
  from st have l1: "l1 = filter ?P1 lst" by simp
  from st have c1: "c1 = (ch \<or> l1 \<noteq> lst)" by simp
  from l1 Cons.prems(1) have d1: "distinct (map fst l1)" by (simp add: distinct_map_filter)
  from l1 have sub: "set l1 \<subseteq> set lst" by auto
  note ih = Cons.IH [OF d1 f]
  from ih have l': "lst' = filter ?Pr l1" by simp
  from ih have c': "ch' = (c1 \<or> lst' \<noteq> l1)" by simp
  from ih obtain new_rest where nr: "nc' = n1 @ concat new_rest"
    and rel: "list_all2 (purged_line ptime now days l1) rest new_rest"
    and rem: "\<forall>e \<in> set l1. e \<notin> set lst' \<longrightarrow>
                (\<exists>line \<in> set rest. entry_line (fst e) line \<and> annotation (snd e) @ line \<in> set new_rest)"
    by blast
  have a: "lst' = filter (\<lambda>e. \<not> (list_ex (entry_line (fst e)) (line # rest) \<and> expired ptime now days (snd e))) lst"
    unfolding l' l1 by (auto intro: filter_cong)
  have "(l1 \<noteq> lst \<or> lst' \<noteq> l1) = (lst' \<noteq> lst)"
  proof (cases "lst' = lst")
    case True
    with l' l1 have "filter ?Pr (filter ?P1 lst) = lst" by simp
    then have "\<forall>e \<in> set lst. ?P1 e \<and> ?Pr e"
      by (auto simp: filter_id_conv)
    then have "filter ?P1 lst = lst" by (auto simp: filter_id_conv)
    with l1 True show ?thesis by simp
  next
    case False
    then show ?thesis by auto
  qed
  with c' c1 have b: "ch' = (ch \<or> lst' \<noteq> lst)" by auto
  obtain n_line where n1: "n1 = nc @ n_line"
    and pl: "purged_line ptime now days lst line n_line"
    and rm1: "\<forall>e \<in> set lst. e \<notin> set l1 \<longrightarrow> entry_line (fst e) line \<and> n_line = annotation (snd e) @ line"
  proof (cases "l1 = lst")
    case True
    with st have "n1 = nc @ line" by simp
    with True that [of line] show ?thesis by (simp add: purged_line_def)
  next
    case False
    with st obtain it where it: "(line_pattern line, it) \<in> set lst" "expired ptime now days it"
        "\<not> startswith line ''#''" "n1 = nc @ annotation it @ line"
      by auto
    have "entry_line (fst e) line \<and> annotation it @ line = annotation (snd e) @ line"
      if "e \<in> set lst" "e \<notin> set l1" for e
    proof -
      from that l1 have el: "entry_line (fst e) line" by auto
      then have "fst e = line_pattern line" by (simp add: entry_line_def)
      with that(1) it(1) Cons.prems(1) have "snd e = it"
        by (metis distinct_map_of option.inject prod.collapse)
      with el show ?thesis by simp
    qed
    with it that [of "annotation it @ line"] show ?thesis
      by (auto simp: purged_line_def)
  qed
  have c: "nc' = nc @ concat (n_line # new_rest)
      \<and> list_all2 (purged_line ptime now days lst) (line # rest) (n_line # new_rest)
      \<and> (\<forall>e \<in> set lst. e \<notin> set lst' \<longrightarrow>
            (\<exists>l \<in> set (line # rest). entry_line (fst e) l \<and> annotation (snd e) @ l \<in> set (n_line # new_rest)))"
  proof (intro conjI ballI impI)
    show "nc' = nc @ concat (n_line # new_rest)" using nr n1 by simp
    show "list_all2 (purged_line ptime now days lst) (line # rest) (n_line # new_rest)"
      using pl rel sub by (auto elim!: list_all2_mono intro: purged_line_mono)
  next
    fix e assume e: "e \<in> set lst" "e \<notin> set lst'"
    show "\<exists>l \<in> set (line # rest). entry_line (fst e) l \<and> annotation (snd e) @ l \<in> set (n_line # new_rest)"
    proof (cases "e \<in> set l1")
      case True
      with rem e(2) show ?thesis by auto
    next
      case False
      with rm1 e(1) show ?thesis by auto
    qed
  qed
  from a b c show ?case by blast
qed

text \<open>
  C5 as stated fails: the purge runs over the lines of the list file, so an expired entry
  of the list whose line is missing from the file (here the user has commented it out)
  stays in the list.
\<close>

theorem purge_exactly_expired_counterexample:
  "expired example_ptime 1635811200 270
     \<lparr>regex = ''555'', timestamp = ''2021-01-01 00:00'', count = 3, permanent = False, note_text = []\<rparr>
   \<and> purge_list example_ptime 1635811200
        [(''^555'', \<lparr>regex = ''555'', timestamp = ''2021-01-01 00:00'', count = 3, permanent = False,
                     note_text = []\<rparr>)]
        [''blocklist.dat'' \<mapsto> ''#^555;;'' @ [LF]] ''blocklist.dat'' 270 =
      Inr ([(''^555'', \<lparr>regex = ''555'', timestamp = ''2021-01-01 00:00'', count = 3, permanent = False,
                         note_text = []\<rparr>)],
           [''blocklist.dat'' \<mapsto> ''#^555;;'' @ [LF]])"
  by (simp add: expired_def example_ptime_def day_secs_def purge_list_def purge_line_def
      file_lines_def startswith_def LF_def CR_def py_split_def)

text \<open>
  C5, amended. Let the list be a dictionary (its keys differ) and let \<^verbatim>\<open>purge_list\<close>
  return, that is, let every timestamp it reads parse. Every permanent entry is still in
  the list. The list that is left consists of the
  entries of the old one, in their order, but those that are listed in the file (the
  pattern of a line that is no comment) and have expired (not permanent, and more than the
  lifetime since the stored timestamp). If no entry was removed the file system is as
  before. If one was, the old content of the list file is the content of the backup, the
  list file holds the old lines, each as it was or commented out for an expired entry with
  its pattern, and every removed entry has such a commented line.
\<close>

theorem purge_removes_listed_expired:
  assumes "distinct (map fst lst)"
    and "purge_list ptime now lst fs list_file days = Inr (lst', fs')"
  shows "(\<forall>e \<in> set lst. permanent (snd e) \<longrightarrow> e \<in> set lst')
    \<and> lst' = filter (\<lambda>e. \<not> (expired ptime now days (snd e) \<and>
                (case fs list_file of None \<Rightarrow> False | Some content \<Rightarrow> listed content (fst e)))) lst
    \<and> (lst' = lst \<longrightarrow> fs' = fs)
    \<and> (lst' \<noteq> lst \<longrightarrow>
         (\<exists>content new_lines. fs list_file = Some content
            \<and> fs' = fs(list_file @ ''-backup'' \<mapsto> content, list_file \<mapsto> concat new_lines)
            \<and> list_all2 (purged_line ptime now days lst) (file_lines content) new_lines
            \<and> (\<forall>e \<in> set lst. e \<notin> set lst' \<longrightarrow>
                  (\<exists>line \<in> set (file_lines content).
                     entry_line (fst e) line \<and> annotation (snd e) @ line \<in> set new_lines))))"
proof (cases "fs list_file")
  case None
  with assms(2) have "lst' = lst" "fs' = fs" by (simp_all add: purge_list_def)
  with None show ?thesis by simp
next
  case (Some content)
  with assms(2) obtain nc ch where
    f: "fold_err (purge_line ptime now days) (file_lines content) (lst, [], False) = Inr (lst', nc, ch)"
    and fs': "fs' = (if ch then fs(list_file @ ''-backup'' \<mapsto> content, list_file \<mapsto> nc) else fs)"
    by (auto simp: purge_list_def split: sum.splits if_splits)
  note pf = purge_fold [OF assms(1) f]
  from pf have l': "lst' = filter (\<lambda>e. \<not> (list_ex (entry_line (fst e)) (file_lines content)
      \<and> expired ptime now days (snd e))) lst"
    by simp
  from pf have ch: "ch = (lst' \<noteq> lst)" by simp
  from pf have "\<exists>new_lines. nc = [] @ concat new_lines
      \<and> list_all2 (purged_line ptime now days lst) (file_lines content) new_lines
      \<and> (\<forall>e \<in> set lst. e \<notin> set lst' \<longrightarrow>
       (\<exists>line \<in> set (file_lines content). entry_line (fst e) line \<and> annotation (snd e) @ line \<in> set new_lines))"
    by (elim conjE)
  then obtain new_lines where nl: "nc = concat new_lines"
    "list_all2 (purged_line ptime now days lst) (file_lines content) new_lines"
    "\<forall>e \<in> set lst. e \<notin> set lst' \<longrightarrow>
       (\<exists>line \<in> set (file_lines content). entry_line (fst e) line \<and> annotation (snd e) @ line \<in> set new_lines)"
    unfolding append_Nil by blast
  have "\<forall>e \<in> set lst. permanent (snd e) \<longrightarrow> e \<in> set lst'"
    unfolding l' by (auto simp: expired_def)
  moreover have "lst' = filter (\<lambda>e. \<not> (expired ptime now days (snd e) \<and>
                (case fs list_file of None \<Rightarrow> False | Some content \<Rightarrow> listed content (fst e)))) lst"
    unfolding l' using Some by (auto simp: listed_def intro: filter_cong)
  moreover have "lst' = lst \<longrightarrow> fs' = fs" using ch fs' by simp
  moreover have "lst' \<noteq> lst \<longrightarrow>
         (\<exists>content new_lines. fs list_file = Some content
            \<and> fs' = fs(list_file @ ''-backup'' \<mapsto> content, list_file \<mapsto> concat new_lines)
            \<and> list_all2 (purged_line ptime now days lst) (file_lines content) new_lines
            \<and> (\<forall>e \<in> set lst. e \<notin> set lst' \<longrightarrow>
                  (\<exists>line \<in> set (file_lines content).
                     entry_line (fst e) line \<and> annotation (snd e) @ line \<in> set new_lines)))"
  proof
    assume "lst' \<noteq> lst"
    with ch fs' nl(1) have "fs' = fs(list_file @ ''-backup'' \<mapsto> content, list_file \<mapsto> concat new_lines)"
      by simp
    with Some nl(2,3) show "\<exists>content new_lines. fs list_file = Some content
            \<and> fs' = fs(list_file @ ''-backup'' \<mapsto> content, list_file \<mapsto> concat new_lines)
            \<and> list_all2 (purged_line ptime now days lst) (file_lines content) new_lines
            \<and> (\<forall>e \<in> set lst. e \<notin> set lst' \<longrightarrow>
                  (\<exists>line \<in> set (file_lines content).
                     entry_line (fst e) line \<and> annotation (snd e) @ line \<in> set new_lines))"
      by (intro exI [of _ content] exI [of _ new_lines]) simp
  qed
  ultimately show ?thesis by (intro conjI)
qed

lemmas purge_defs = purge_list_def purge_line_def file_lines_def startswith_def LF_def CR_def
  py_split_def
  strip_newlines_def example_ptime_def day_secs_def dict_del_def py_str_def digits.simps
  digit_char_def Let_def

text \<open>A purge 305 days after the first of January 2021 with a lifetime of 270 days: the
  permanent entry of that day stays, the other one is commented out and removed, the
  entry of October stays, and the old file is the backup.\<close>

theorem purge_removes_listed_expired_witness:
  "(case purge_list example_ptime 1635811200 purge_example_list purge_example_files ''blocklist.dat'' 270 of
      Inl e \<Rightarrow> False
    | Inr (lst', fs') \<Rightarrow>
        lst' = [(''^444'', \<lparr>regex = ''444'', timestamp = ''2021-01-01 00:00'', count = 9, permanent = True,
                  note_text = ''office''\<rparr>),
                (''abc'', \<lparr>regex = ''abc'', timestamp = ''2021-10-01 00:00'', count = 1, permanent = False,
                 note_text = []\<rparr>)]
        \<and> fs' ''blocklist.dat'' =
            Some (''^444;p;office'' @ [LF] @
                  ''# last blocked on 2021-01-01 00:00 count 3 #^555;;spam'' @ [LF] @ ''abc;;'' @ [LF])
        \<and> fs' ''blocklist.dat-backup'' =
            Some (''^444;p;office'' @ [LF] @ ''^555;;spam'' @ [LF] @ ''abc;;'' @ [LF]))"
proof -
  let ?r = "purge_list example_ptime 1635811200 purge_example_list purge_example_files ''blocklist.dat'' 270"
  have d: "distinct (map fst purge_example_list)"
    by (simp add: purge_example_list_def)
  have v: "(case ?r of
      Inl e \<Rightarrow> False
    | Inr (lst', fs') \<Rightarrow>
        lst' = [(''^444'', \<lparr>regex = ''444'', timestamp = ''2021-01-01 00:00'', count = 9, permanent = True,
                  note_text = ''office''\<rparr>),
                (''abc'', \<lparr>regex = ''abc'', timestamp = ''2021-10-01 00:00'', count = 1, permanent = False,
                 note_text = []\<rparr>)]
        \<and> fs' ''blocklist.dat'' =
            Some (''^444;p;office'' @ [LF] @
                  ''# last blocked on 2021-01-01 00:00 count 3 #^555;;spam'' @ [LF] @ ''abc;;'' @ [LF])
        \<and> fs' ''blocklist.dat-backup'' =
            Some (''^444;p;office'' @ [LF] @ ''^555;;spam'' @ [LF] @ ''abc;;'' @ [LF]))"
    by (simp add: purge_defs purge_example_list_def purge_example_files_def)
  then obtain l f where e: "?r = Inr (l, f)"
    by (auto split: sum.splits)
  from purge_removes_listed_expired [OF d e] have "\<forall>e \<in> set purge_example_list. permanent (snd e) \<longrightarrow> e \<in> set l"
    by (rule conjunct1)
  with v e show ?thesis by simp
qed

subsection \<open>Entries without history\<close>

lemma map_fst_dict_set:
  "map fst (dict_set k v kvs) = (if k \<in> fst ` set kvs then map fst kvs else map fst kvs @ [k])"
  by (induction kvs) force+

lemma distinct_dict_set:
  "distinct (map fst kvs) \<Longrightarrow> distinct (map fst (dict_set k v kvs))"
  by (simp add: map_fst_dict_set)

lemma set_dict_set_other:
  "(k, v) \<in> set (dict_set k' v' kvs) \<Longrightarrow> k \<noteq> k' \<Longrightarrow> (k, v) \<in> set kvs"
  by (induction kvs) (auto split: if_splits)

lemma dat_line_fresh:
  "fresh now lst \<Longrightarrow> fresh now (dat_line compile now line lst)"
  by (auto simp: dat_line_def fresh_def Let_def distinct_dict_set list_all_dict_set
      split: prod.splits option.splits)

lemma read_dat_fresh:
  "fresh now lst \<Longrightarrow> fresh now (read_dat compile now lines lst)"
  by (induction lines arbitrary: lst) (auto simp: dat_line_fresh)

lemma match_line_distinct:
  "distinct (map fst lst) \<Longrightarrow> match_line line lst = Inr lst' \<Longrightarrow> distinct (map fst lst')"
  by (auto simp: match_line_def Let_def distinct_dict_set split: if_splits option.splits)

lemma match_line_other:
  assumes "match_line line lst = Inr lst'" and "\<not> history_line k line" and "(k, it) \<in> set lst'"
  shows "(k, it) \<in> set lst"
proof (cases "length (py_splitn (CHR '';'') 3 (strip_newlines line)) = 3")
  case False
  with assms show ?thesis by (simp add: match_line_def)
next
  case True
  with assms(2) have ne: "k \<noteq> py_splitn (CHR '';'') 3 (strip_newlines line) ! 2"
    by (auto simp: history_line_def)
  from assms(1,3) True show ?thesis
    by (auto simp: match_line_def Let_def split: option.splits dest: set_dict_set_other [OF _ ne])
qed

lemma match_lines_other:
  "fold_err match_line lines lst = Inr lst' \<Longrightarrow> \<not> list_ex (history_line k) lines \<Longrightarrow>
   (k, it) \<in> set lst' \<Longrightarrow> (k, it) \<in> set lst"
proof (induction lines arbitrary: lst)
  case Nil
  then show ?case by simp
next
  case (Cons line lines)
  from Cons.prems(1) obtain l1 where s: "match_line line lst = Inr l1"
    and f: "fold_err match_line lines l1 = Inr lst'"
    by (auto split: sum.splits)
  from Cons.prems(2) have n: "\<not> history_line k line" "\<not> list_ex (history_line k) lines" by auto
  from Cons.IH [OF f n(2) Cons.prems(3)] have "(k, it) \<in> set l1" .
  with s n(1) show ?case by (rule match_line_other)
qed

lemma read_list_distinct:
  assumes "read_list compile now fs list_file = Inr lst"
  shows "distinct (map fst lst)"
proof (cases "fs list_file")
  case None
  with assms show ?thesis by (simp add: read_list_def)
next
  case (Some content)
  have d: "distinct (map fst (read_dat compile now (file_lines content) []))"
    using read_dat_fresh [of now "[]" compile "file_lines content"] by (simp add: fresh_def)
  show ?thesis
  proof (cases "fs (list_file @ ''-match'')")
    case None
    with assms Some d show ?thesis by (simp add: read_list_def)
  next
    case (Some history)
    with assms \<open>fs list_file = Some content\<close>
    have "fold_err match_line (file_lines history) (read_dat compile now (file_lines content) []) = Inr lst"
      by (simp add: read_list_def)
    with d show ?thesis
      by (rule fold_err_invariant [where P = "\<lambda>l. distinct (map fst l)", rotated])
        (rule match_line_distinct)
  qed
qed

lemma read_list_no_history:
  assumes r: "read_list compile now fs list_file = Inr lst"
    and k: "(k, it) \<in> set lst" and h: "\<not> has_history fs list_file k"
  shows "timestamp it = now \<and> count it = 0"
proof -
  from r k obtain content where c: "fs list_file = Some content"
    by (cases "fs list_file") (auto simp: read_list_def)
  let ?l0 = "read_dat compile now (file_lines content) []"
  have fr: "fresh now ?l0"
    by (rule read_dat_fresh) (simp add: fresh_def)
  have "(k, it) \<in> set ?l0"
  proof (cases "fs (list_file @ ''-match'')")
    case None
    with r c k show ?thesis by (simp add: read_list_def)
  next
    case (Some history)
    with r c have "fold_err match_line (file_lines history) ?l0 = Inr lst"
      by (simp add: read_list_def)
    moreover from h Some have "\<not> list_ex (history_line k) (file_lines history)"
      by (simp add: has_history_def)
    ultimately show ?thesis using k by (rule match_lines_other)
  qed
  with fr show ?thesis by (auto simp: fresh_def list_all_iff)
qed

lemma purge_list_keeps:
  assumes d: "distinct (map fst lst)" and p: "purge_list ptime pnow lst fs list_file days = Inr (lst', fs')"
    and k: "(k, it) \<in> set lst" and e: "\<not> expired ptime pnow days it"
  shows "(k, it) \<in> set lst'"
proof (cases "fs list_file")
  case None
  with p k show ?thesis by (simp add: purge_list_def)
next
  case (Some content)
  with p obtain nc ch where
    "fold_err (purge_line ptime pnow days) (file_lines content) (lst, [], False) = Inr (lst', nc, ch)"
    by (auto simp: purge_list_def split: sum.splits if_splits)
  from purge_fold [OF d this] have "lst' = filter (\<lambda>e. \<not> (list_ex (entry_line (fst e)) (file_lines content)
      \<and> expired ptime pnow days (snd e))) lst"
    by simp
  with k e show ?thesis by simp
qed

text \<open>
  C10. An entry that \<^verbatim>\<open>read_list\<close> returns and for which the match file holds no line
  has the time of this load (\<open>now\<close>, to the minute) as its timestamp and the count 0.
  Whatever the list file holds later, a purge of the loaded list that returns keeps the
  entry as long as no more than the lifetime has passed since the time the timestamp of
  the load stands for. A reload gives the entry the time of the reload in the same way.
\<close>

theorem load_without_history:
  assumes "read_list compile now fs list_file = Inr lst"
    and "(k, it) \<in> set lst" and "\<not> has_history fs list_file k"
  shows "timestamp it = now \<and> count it = 0
    \<and> (ptime now = Some t0 \<and> pnow - t0 \<le> of_int days * day_secs
        \<and> purge_list ptime pnow lst fs2 list_file days = Inr (lst', fs') \<longrightarrow> (k, it) \<in> set lst')"
proof (intro conjI impI)
  from assms show ts: "timestamp it = now" and "count it = 0"
    using read_list_no_history [OF assms] by simp_all
  assume a: "ptime now = Some t0 \<and> pnow - t0 \<le> of_int days * day_secs
        \<and> purge_list ptime pnow lst fs2 list_file days = Inr (lst', fs')"
  with ts have "\<not> expired ptime pnow days it" by (simp add: expired_def)
  with read_list_distinct [OF assms(1)] a assms(2) show "(k, it) \<in> set lst'"
    by (auto intro: purge_list_keeps)
qed

lemmas int_defs = py_int_def is_space_def is_digit_def digits_value_def

lemma history_example_load:
  "read_list lit_compile ''2021-10-01 00:00'' history_example_files ''blocklist.dat'' =
   Inr history_example_list"
  by (simp add: load_defs int_defs history_example_files_def history_example_list_def)

text \<open>The entry \<^verbatim>\<open>abc\<close> has no line in the match file: it gets the time of the load,
  and a purge 32 days later with a lifetime of 270 days keeps it.\<close>

theorem load_without_history_witness:
  "read_list lit_compile ''2021-10-01 00:00'' history_example_files ''blocklist.dat'' =
     Inr history_example_list
   \<and> \<not> has_history history_example_files ''blocklist.dat'' ''abc''
   \<and> example_ptime ''2021-10-01 00:00'' = Some 1633046400
   \<and> (case purge_list example_ptime 1635811200 history_example_list history_example_files
             ''blocklist.dat'' 270 of
         Inl e \<Rightarrow> False
       | Inr (lst', fs') \<Rightarrow>
           lst' = [(''abc'', \<lparr>regex = ''abc'', timestamp = ''2021-10-01 00:00'', count = 0,
                              permanent = False, note_text = []\<rparr>)])"
proof -
  let ?abc = "\<lparr>regex = ''abc'', timestamp = ''2021-10-01 00:00'', count = 0,
                              permanent = False, note_text = []\<rparr> :: string item"
  have m: "(''abc'', ?abc) \<in> set history_example_list"
    by (simp add: history_example_list_def)
  have h: "\<not> has_history history_example_files ''blocklist.dat'' ''abc''"
    by (simp add: has_history_def history_line_def history_example_files_def file_lines_def
        strip_newlines_def LF_def CR_def py_splitn_def numeral_3_eq_3)
  have t: "example_ptime ''2021-10-01 00:00'' = Some 1633046400"
    by (simp add: example_ptime_def)
  have p: "(case purge_list example_ptime 1635811200 history_example_list history_example_files
             ''blocklist.dat'' 270 of
         Inl e \<Rightarrow> False
       | Inr (lst', fs') \<Rightarrow> lst' = [(''abc'', ?abc)])"
    by (simp add: purge_defs history_example_list_def history_example_files_def)
  then obtain l f where e: "purge_list example_ptime 1635811200 history_example_list
      history_example_files ''blocklist.dat'' 270 = Inr (l, f)"
    by (auto split: sum.splits)
  from load_without_history [OF history_example_load m h, of example_ptime 1633046400 1635811200 270
      history_example_files l f] t e
  have "(''abc'', ?abc) \<in> set l"
    by (simp add: day_secs_def)
  with history_example_load h t p show ?thesis by simp
qed

subsection \<open>The round trip of the match history\<close>

text \<open>
  C3 fails on the code for a pattern that holds a semicolon. The list file holds the
  patterns \<^verbatim>\<open>a;b\<close> (written \<^verbatim>\<open>a\;b\<close>) and \<^verbatim>\<open>^555\<close>. The list is loaded, both
  entries match twice, and \<^verbatim>\<open>update_list_match\<close> writes the lines
  \<^verbatim>\<open>2021-10-06 17:01;2;a;b\<close> and \<^verbatim>\<open>2021-10-06 17:01;2;^555\<close>. On reload, line 287
  splits the first line with \<^verbatim>\<open>maxsplit\<close> 3 into four fields, line 289 refuses it, and
  the entry \<^verbatim>\<open>a;b\<close> comes back with the time of the reload and the count 0, while
  \<^verbatim>\<open>^555\<close> keeps its history. The same happens with no match in between: the
  timestamp of the first load is replaced by that of the reload.
\<close>

theorem match_history_lost_for_semicolon:
  "read_list lit_compile ''2021-10-01 00:00'' semicolon_example_files ''blocklist.dat'' =
     Inr [(''a;b'', \<lparr>regex = ''a;b'', timestamp = ''2021-10-01 00:00'', count = 0, permanent = False,
                     note_text = []\<rparr>),
          (''^555'', \<lparr>regex = ''555'', timestamp = ''2021-10-01 00:00'', count = 0, permanent = False,
                      note_text = []\<rparr>)]
   \<and> update_list_match
        [(''a;b'', \<lparr>regex = ''a;b'', timestamp = ''2021-10-06 17:01'', count = 2, permanent = False,
                    note_text = []\<rparr>),
         (''^555'', \<lparr>regex = ''555'', timestamp = ''2021-10-06 17:01'', count = 2, permanent = False,
                     note_text = []\<rparr>)]
        semicolon_example_files ''blocklist.dat'' ''blocklist.dat-match'' =
      Some (''2021-10-06 17:01;2;a;b'' @ [LF] @ ''2021-10-06 17:01;2;^555'' @ [LF])
   \<and> read_list lit_compile ''2021-11-02 00:00''
        (update_list_match
           [(''a;b'', \<lparr>regex = ''a;b'', timestamp = ''2021-10-06 17:01'', count = 2, permanent = False,
                       note_text = []\<rparr>),
            (''^555'', \<lparr>regex = ''555'', timestamp = ''2021-10-06 17:01'', count = 2, permanent = False,
                        note_text = []\<rparr>)]
           semicolon_example_files ''blocklist.dat'')
        ''blocklist.dat'' =
      Inr [(''a;b'', \<lparr>regex = ''a;b'', timestamp = ''2021-11-02 00:00'', count = 0, permanent = False,
                      note_text = []\<rparr>),
           (''^555'', \<lparr>regex = ''555'', timestamp = ''2021-10-06 17:01'', count = 2, permanent = False,
                       note_text = []\<rparr>)]
   \<and> read_list lit_compile ''2021-11-02 00:00''
        (update_list_match
           [(''a;b'', \<lparr>regex = ''a;b'', timestamp = ''2021-10-01 00:00'', count = 0, permanent = False,
                       note_text = []\<rparr>),
            (''^555'', \<lparr>regex = ''555'', timestamp = ''2021-10-01 00:00'', count = 0, permanent = False,
                        note_text = []\<rparr>)]
           semicolon_example_files ''blocklist.dat'')
        ''blocklist.dat'' =
      Inr [(''a;b'', \<lparr>regex = ''a;b'', timestamp = ''2021-11-02 00:00'', count = 0, permanent = False,
                      note_text = []\<rparr>),
           (''^555'', \<lparr>regex = ''555'', timestamp = ''2021-10-01 00:00'', count = 0, permanent = False,
                       note_text = []\<rparr>)]"
  by (simp add: load_defs int_defs semicolon_example_files_def update_list_match_def
      match_file_line_def py_str_def digits.simps digit_char_def)

subsection \<open>The star key detector\<close>

lemma star_loop_unfold:
  "star_loop (tk # tks) st =
     (if star_guard tk st then star_loop tks (star_body tk st)
      else Some (py_in star_bytes (fst st), snd (snd st) @ [''ATH'']))"
  by (cases st) (simp add: star_guard_def)

lemma star_loop_result:
  "(star_loop ticks st = Some (r, cmds)) =
     (\<exists>pre tk post. ticks = pre @ tk # post \<and> window_open pre st
        \<and> \<not> star_guard tk (star_run pre st)
        \<and> r = py_in star_bytes (fst (star_run pre st))
        \<and> cmds = snd (snd (star_run pre st)) @ [''ATH''])"
proof (induction ticks arbitrary: st)
  case Nil
  show ?case by simp
next
  case (Cons t ts)
  show ?case
  proof (cases "star_guard t st")
    case True
    have "(\<exists>pre tk post. t # ts = pre @ tk # post \<and> window_open pre st
        \<and> \<not> star_guard tk (star_run pre st)
        \<and> r = py_in star_bytes (fst (star_run pre st))
        \<and> cmds = snd (snd (star_run pre st)) @ [''ATH'']) =
      (\<exists>pre tk post. ts = pre @ tk # post \<and> window_open pre (star_body t st)
        \<and> \<not> star_guard tk (star_run pre (star_body t st))
        \<and> r = py_in star_bytes (fst (star_run pre (star_body t st)))
        \<and> cmds = snd (snd (star_run pre (star_body t st))) @ [''ATH''])" (is "?L = ?R")
    proof
      assume ?L
      then obtain pre tk post where p: "t # ts = pre @ tk # post" "window_open pre st"
        "\<not> star_guard tk (star_run pre st)" "r = py_in star_bytes (fst (star_run pre st))"
        "cmds = snd (snd (star_run pre st)) @ [''ATH'']"
        by blast
      from p(1,3) True obtain pre' where pre': "pre = t # pre'" "ts = pre' @ tk # post"
        by (cases pre) auto
      with p show ?R by auto
    next
      assume ?R
      then obtain pre tk post where p: "ts = pre @ tk # post" "window_open pre (star_body t st)"
        "\<not> star_guard tk (star_run pre (star_body t st))"
        "r = py_in star_bytes (fst (star_run pre (star_body t st)))"
        "cmds = snd (snd (star_run pre (star_body t st))) @ [''ATH'']"
        by blast
      with True have "t # ts = (t # pre) @ tk # post \<and> window_open (t # pre) st
        \<and> \<not> star_guard tk (star_run (t # pre) st)
        \<and> r = py_in star_bytes (fst (star_run (t # pre) st))
        \<and> cmds = snd (snd (star_run (t # pre) st)) @ [''ATH'']"
        by simp
      then show ?L by blast
    qed
    with True Cons.IH [of "star_body t st"] show ?thesis
      by (simp add: star_loop_unfold)
  next
    case False
    have "(\<exists>pre tk post. t # ts = pre @ tk # post \<and> window_open pre st
        \<and> \<not> star_guard tk (star_run pre st)
        \<and> r = py_in star_bytes (fst (star_run pre st))
        \<and> cmds = snd (snd (star_run pre st)) @ [''ATH'']) =
      (r = py_in star_bytes (fst st) \<and> cmds = snd (snd st) @ [''ATH''])" (is "?L = ?R")
    proof
      assume ?L
      then obtain pre tk post where p: "t # ts = pre @ tk # post" "window_open pre st"
        "\<not> star_guard tk (star_run pre st)" "r = py_in star_bytes (fst (star_run pre st))"
        "cmds = snd (snd (star_run pre st)) @ [''ATH'']"
        by blast
      from p(1,2) False have "pre = []" by (cases pre) auto
      with p show ?R by simp
    next
      assume ?R
      with False have "t # ts = [] @ t # ts \<and> window_open [] st
        \<and> \<not> star_guard t (star_run [] st)
        \<and> r = py_in star_bytes (fst (star_run [] st))
        \<and> cmds = snd (snd (star_run [] st)) @ [''ATH'']"
        by simp
      then show ?L by blast
    qed
    with False show ?thesis
      by (auto simp: star_loop_unfold)
  qed
qed

lemma rx_bytes_Cons:
  "rx_bytes (tk # tks) = (case rx_byte tk of None \<Rightarrow> [] | Some b \<Rightarrow> [b]) @ rx_bytes tks"
  by (simp add: rx_bytes_def)

lemma ring_stream_Cons:
  "ring_stream (b # rest) \<Longrightarrow> b = CHR 0x10"
  by (cases rest) auto

lemma ring_stream_second:
  "ring_stream (CHR 0x10 # b # rest) \<Longrightarrow> (b = CHR ''R'' \<or> b = CHR ''r'') \<and> ring_stream rest"
  by simp

lemma star_body_rings:
  assumes "ring_inv buf (rx_bytes (tk # tks))"
  shows "ring_inv (fst (star_body tk (buf, lr, snt))) (rx_bytes tks)
    \<and> snd (snd (star_body tk (buf, lr, snt))) = snt
    \<and> (fst (snd (star_body tk (buf, lr, snt))) = lr \<or> fst (snd (star_body tk (buf, lr, snt))) = ring_clock tk)"
proof (cases "rx_byte tk")
  case None
  with assms show ?thesis
    by (auto simp: ring_inv_def rx_bytes_Cons star_body_def LF_def startswith_def
        ring_bytes1_def ring_bytes2_def)
next
  case (Some b)
  with assms have i: "(buf = [] \<and> ring_stream (b # rx_bytes tks))
      \<or> (buf = [CHR 0x10] \<and> ring_stream (CHR 0x10 # b # rx_bytes tks))"
    by (simp add: ring_inv_def rx_bytes_Cons)
  then show ?thesis
  proof
    assume a: "buf = [] \<and> ring_stream (b # rx_bytes tks)"
    then have "b = CHR 0x10" by (auto dest: ring_stream_Cons)
    with a Some show ?thesis
      by (simp add: ring_inv_def star_body_def LF_def startswith_def ring_bytes1_def ring_bytes2_def)
  next
    assume a: "buf = [CHR 0x10] \<and> ring_stream (CHR 0x10 # b # rx_bytes tks)"
    then have "(b = CHR ''R'' \<or> b = CHR ''r'') \<and> ring_stream (rx_bytes tks)" by simp
    with a Some show ?thesis
      by (auto simp: ring_inv_def star_body_def LF_def startswith_def ring_bytes1_def ring_bytes2_def)
  qed
qed

lemma ring_inv_no_star: "ring_inv buf rest \<Longrightarrow> \<not> py_in star_bytes buf"
  by (auto simp: ring_inv_def star_bytes_def startswith_def)

lemma star_run_rings:
  "ring_inv (fst st) (rx_bytes (pre @ post)) \<Longrightarrow> ring_inv (fst (star_run pre st)) (rx_bytes post)"
proof (induction pre arbitrary: st)
  case Nil
  then show ?case by simp
next
  case (Cons t pre)
  obtain buf lr snt where st: "st = (buf, lr, snt)" by (cases st)
  from Cons.prems st have "ring_inv buf (rx_bytes (t # (pre @ post)))" by simp
  then have "ring_inv (fst (star_body t (buf, lr, snt))) (rx_bytes (pre @ post))"
    using star_body_rings by blast
  then have "ring_inv (fst (star_run pre (star_body t (buf, lr, snt)))) (rx_bytes post)"
    by (rule Cons.IH)
  with st show ?case by simp
qed

lemma rings_return_false:
  "ring_inv (fst st) (rx_bytes (pre @ tk # post)) \<Longrightarrow> 10 \<le> clock tk - fst (snd (star_run pre st)) \<Longrightarrow>
   \<exists>cmds. star_loop (pre @ tk # post) st = Some (False, cmds)"
proof (induction pre arbitrary: st)
  case Nil
  then have "\<not> star_guard tk st" by (simp add: star_guard_def)
  moreover from Nil have "\<not> py_in star_bytes (fst st)" by (auto dest: ring_inv_no_star)
  ultimately show ?case by (simp add: star_loop_unfold)
next
  case (Cons t pre)
  obtain buf lr snt where st: "st = (buf, lr, snt)" by (cases st)
  from Cons.prems st have ns: "\<not> py_in star_bytes (fst st)" by (auto dest: ring_inv_no_star)
  show ?case
  proof (cases "star_guard t st")
    case True
    from Cons.prems(1) st have "ring_inv buf (rx_bytes (t # (pre @ tk # post)))" by simp
    then have "ring_inv (fst (star_body t st)) (rx_bytes (pre @ tk # post))"
      using star_body_rings st by blast
    moreover from Cons.prems(2) have "10 \<le> clock tk - fst (snd (star_run pre (star_body t st)))"
      by simp
    ultimately have "\<exists>cmds. star_loop (pre @ tk # post) (star_body t st) = Some (False, cmds)"
      by (rule Cons.IH)
    with True show ?thesis by (simp add: star_loop_unfold)
  next
    case False
    with ns show ?thesis by (simp add: star_loop_unfold)
  qed
qed

subsection \<open>Ring indicators in the buffer\<close>

lemma py_in_two_snoc:
  "py_in [a, b] (xs @ [c]) = (py_in [a, b] xs \<or> (xs \<noteq> [] \<and> last xs = a \<and> c = b))"
proof (induction xs)
  case Nil
  show ?case by (simp add: startswith_def)
next
  case (Cons x xs)
  then show ?case by (cases xs) (auto simp: startswith_def)
qed

lemma py_in_one: "py_in [a] xs = (a \<in> set xs)"
  by (induction xs) (auto simp: startswith_def)

lemma py_in_butlast: "py_in [a, b] (butlast xs) \<Longrightarrow> py_in [a, b] xs"
proof (cases "xs = []")
  case True
  assume "py_in [a, b] (butlast xs)"
  with True show ?thesis by simp
next
  case False
  assume "py_in [a, b] (butlast xs)"
  then have "py_in [a, b] (butlast xs @ [last xs])" by (simp add: py_in_two_snoc)
  with False show ?thesis by simp
qed

lemma py_replace_none:
  "\<not> py_in old s \<Longrightarrow> old \<noteq> [] \<Longrightarrow> py_replace s old new = s"
  by (induction s) auto

lemma py_replace_last2:
  "\<not> py_in [a, b] (xs @ [a]) \<Longrightarrow> a \<noteq> b \<Longrightarrow> py_replace (xs @ [a, b]) [a, b] [] = xs"
proof (induction xs)
  case Nil
  then show ?case by (simp add: startswith_def)
next
  case (Cons x xs)
  from Cons.prems(1) have n: "\<not> startswith (x # xs @ [a]) [a, b]" "\<not> py_in [a, b] (xs @ [a])"
    by simp_all
  from n(1) Cons.prems(2) have "\<not> startswith (x # xs @ [a, b]) [a, b]"
    by (cases xs) (auto simp: startswith_def)
  with Cons.IH [OF n(2) Cons.prems(2)] show ?case by simp
qed

lemma clean_butlast: "clean buf \<Longrightarrow> clean (butlast buf)"
  by (auto simp: clean_def ring_bytes1_def ring_bytes2_def py_in_one dest: py_in_butlast in_set_butlastD)

lemma star_body_clean:
  assumes c: "clean buf"
  shows "clean (fst (star_body tk (buf, lr, snt)))
    \<and> (if ring_completed buf tk
        then fst (star_body tk (buf, lr, snt)) = butlast buf
           \<and> fst (snd (star_body tk (buf, lr, snt))) = ring_clock tk
        else fst (snd (star_body tk (buf, lr, snt))) = lr)"
proof (cases "rx_byte tk")
  case None
  with c show ?thesis
    by (simp add: star_body_def clean_def ring_completed_def)
next
  case (Some b)
  from c have nl: "LF \<notin> set buf" and n1: "\<not> py_in [CHR 0x10, CHR ''R''] buf"
    and n2: "\<not> py_in [CHR 0x10, CHR ''r''] buf"
    by (simp_all add: clean_def py_in_one ring_bytes1_def ring_bytes2_def)
  show ?thesis
  proof (cases "b = LF")
    case True
    with Some show ?thesis
      by (simp add: star_body_def py_in_one clean_def ring_completed_def ring_bytes1_def
          ring_bytes2_def LF_def)
  next
    case False
    with nl have l: "\<not> py_in [LF] (buf @ [b])" by (simp add: py_in_one)
    let ?dle = "buf \<noteq> [] \<and> last buf = CHR 0x10"
    have r1: "py_in ring_bytes1 (buf @ [b]) = (?dle \<and> b = CHR ''R'')"
      using n1 by (simp add: ring_bytes1_def py_in_two_snoc)
    have r2: "py_in ring_bytes2 (buf @ [b]) = (?dle \<and> b = CHR ''r'')"
      using n2 by (simp add: ring_bytes2_def py_in_two_snoc)
    show ?thesis
    proof (cases "?dle \<and> (b = CHR ''R'' \<or> b = CHR ''r'')")
      case ring: True
      then have bl: "buf = butlast buf @ [CHR 0x10]" by (metis append_butlast_last_id)
      have strip: "py_replace (py_replace (buf @ [b]) ring_bytes1 []) ring_bytes2 [] = butlast buf"
      proof (cases "b = CHR ''R''")
        case True
        from n1 bl have "\<not> py_in [CHR 0x10, CHR ''R''] (butlast buf @ [CHR 0x10])" by simp
        then have "py_replace (butlast buf @ [CHR 0x10, CHR ''R'']) [CHR 0x10, CHR ''R''] [] = butlast buf"
          by (rule py_replace_last2) simp
        with bl True have "py_replace (buf @ [b]) ring_bytes1 [] = butlast buf"
          by (metis append_Cons append_Nil append_assoc ring_bytes1_def)
        moreover from n2 have "\<not> py_in ring_bytes2 (butlast buf)"
          by (auto simp: ring_bytes2_def dest: py_in_butlast)
        ultimately show ?thesis by (simp add: py_replace_none ring_bytes2_def)
      next
        case False
        with ring have b: "b = CHR ''r''" by simp
        with r1 have "py_replace (buf @ [b]) ring_bytes1 [] = buf @ [b]"
          by (simp add: py_replace_none ring_bytes1_def)
        moreover from n2 bl have "\<not> py_in [CHR 0x10, CHR ''r''] (butlast buf @ [CHR 0x10])" by simp
        then have "py_replace (butlast buf @ [CHR 0x10, CHR ''r'']) [CHR 0x10, CHR ''r''] [] = butlast buf"
          by (rule py_replace_last2) simp
        with bl b have "py_replace (buf @ [b]) ring_bytes2 [] = butlast buf"
          by (metis append_Cons append_Nil append_assoc ring_bytes2_def)
        ultimately show ?thesis by simp
      qed
      from ring r1 r2 have seen: "py_in ring_bytes1 (buf @ [b]) \<or> py_in ring_bytes2 (buf @ [b])"
        by auto
      from ring Some have rc: "ring_completed buf tk" by (auto simp: ring_completed_def)
      from Some l seen strip have "star_body tk (buf, lr, snt) = (butlast buf, ring_clock tk, snt)"
        by (simp add: star_body_def Let_def)
      with rc clean_butlast [OF c] show ?thesis by simp
    next
      case noring: False
      with r1 r2 have seen: "\<not> (py_in ring_bytes1 (buf @ [b]) \<or> py_in ring_bytes2 (buf @ [b]))"
        by auto
      from noring Some have rc: "\<not> ring_completed buf tk" by (auto simp: ring_completed_def)
      from Some l seen have "star_body tk (buf, lr, snt) = (buf @ [b], lr, snt)"
        by (simp add: star_body_def Let_def)
      moreover from seen l have "clean (buf @ [b])" by (simp add: clean_def)
      ultimately show ?thesis using rc by simp
    qed
  qed
qed

lemma star_run_clean:
  "clean (fst st) \<Longrightarrow> clean (fst (star_run pre st))"
proof (induction pre arbitrary: st)
  case Nil
  then show ?case by simp
next
  case (Cons t pre)
  obtain buf lr snt where st: "st = (buf, lr, snt)" by (cases st)
  with Cons.prems have "clean (fst (star_body t (buf, lr, snt)))"
    using star_body_clean [of buf t lr snt] by simp
  then have "clean (fst (star_run pre (star_body t (buf, lr, snt))))" by (rule Cons.IH)
  with st show ?case by simp
qed

subsection \<open>The result of the star key detector\<close>

lemma star_guard_star:
  "(\<not> star_guard tk st \<and> py_in star_bytes (fst st)) = py_in star_bytes (fst st)"
  "(\<not> star_guard tk st \<and> \<not> py_in star_bytes (fst st)) =
     (\<not> py_in star_bytes (fst st) \<and> 10 \<le> clock tk - fst (snd st))"
  by (auto simp: star_guard_def)

lemma wait_for_star_True:
  "(\<exists>cmds. wait_for_star t0 ticks = Some (True, cmds)) =
     (\<exists>pre tk post. ticks = pre @ tk # post \<and> window_open pre (star_start t0)
        \<and> py_in star_bytes (fst (star_run pre (star_start t0))))"
  unfolding wait_for_star_def star_start_def [symmetric] star_loop_result
  using star_guard_star(1) by blast

lemma wait_for_star_False:
  "(\<exists>cmds. wait_for_star t0 ticks = Some (False, cmds)) =
     (\<exists>pre tk post. ticks = pre @ tk # post \<and> window_open pre (star_start t0)
        \<and> \<not> py_in star_bytes (fst (star_run pre (star_start t0)))
        \<and> 10 \<le> clock tk - fst (snd (star_run pre (star_start t0))))"
  unfolding wait_for_star_def star_start_def [symmetric] star_loop_result
  using star_guard_star(2) by blast

lemma ring_inv_start: "ring_stream bs \<Longrightarrow> ring_inv (fst (star_start t0)) bs"
  by (simp add: ring_inv_def star_start_def)

lemma rings_never_true:
  assumes "ring_stream (rx_bytes ticks)"
  shows "wait_for_star t0 ticks \<noteq> Some (True, cmds)"
proof
  assume "wait_for_star t0 ticks = Some (True, cmds)"
  then obtain pre tk post where p: "ticks = pre @ tk # post"
    and s: "py_in star_bytes (fst (star_run pre (star_start t0)))"
    using wait_for_star_True [of t0 ticks] by blast
  from assms p have "ring_inv (fst (star_start t0)) (rx_bytes (pre @ tk # post))"
    by (simp add: ring_inv_start)
  then have "ring_inv (fst (star_run pre (star_start t0))) (rx_bytes (tk # post))"
    by (rule star_run_rings)
  then have "\<not> py_in star_bytes (fst (star_run pre (star_start t0)))"
    by (rule ring_inv_no_star)
  with s show False by simp
qed

lemma rings_false_iff:
  assumes "ring_stream (rx_bytes ticks)"
  shows "(\<exists>cmds. wait_for_star t0 ticks = Some (False, cmds)) =
     (\<exists>pre tk post. ticks = pre @ tk # post
        \<and> 10 \<le> clock tk - fst (snd (star_run pre (star_start t0))))"
proof
  assume "\<exists>cmds. wait_for_star t0 ticks = Some (False, cmds)"
  then show "\<exists>pre tk post. ticks = pre @ tk # post
        \<and> 10 \<le> clock tk - fst (snd (star_run pre (star_start t0)))"
    unfolding wait_for_star_False by blast
next
  assume "\<exists>pre tk post. ticks = pre @ tk # post
        \<and> 10 \<le> clock tk - fst (snd (star_run pre (star_start t0)))"
  then obtain pre tk post where p: "ticks = pre @ tk # post"
    and d: "10 \<le> clock tk - fst (snd (star_run pre (star_start t0)))"
    by blast
  from assms p have "ring_inv (fst (star_start t0)) (rx_bytes (pre @ tk # post))"
    by (simp add: ring_inv_start)
  from rings_return_false [OF this d] p
  show "\<exists>cmds. wait_for_star t0 ticks = Some (False, cmds)"
    by (simp add: wait_for_star_def star_start_def)
qed

lemma clean_start: "clean (fst (star_start t0))"
  by (simp add: clean_def star_start_def ring_bytes1_def ring_bytes2_def)

text \<open>
  C6. \<^verbatim>\<open>wait_for_star\<close> returns true exactly when, after some number of passes of its
  loop, each begun with the clock less than 10 seconds past \<^verbatim>\<open>last_ring\<close> and with no
  star marker in the buffer, the buffer holds the star marker. It returns false exactly
  when, after such passes, the buffer holds no star marker and the clock read by the loop
  test is 10 seconds or more past \<^verbatim>\<open>last_ring\<close>. Between passes the buffer holds no ring
  indicator and no line feed; a pass that completes a ring indicator takes the indicator
  out of the buffer and sets \<^verbatim>\<open>last_ring\<close> to the clock, any other pass leaves
  \<^verbatim>\<open>last_ring\<close> as it is. When the bytes read are ring indicators only, the result is
  never true, and it is false exactly when some loop test reads a clock that is 10 seconds
  or more past \<^verbatim>\<open>last_ring\<close>.
\<close>

theorem star_detected_within_window:
  "((\<exists>cmds. wait_for_star t0 ticks = Some (True, cmds)) =
      (\<exists>pre tk post. ticks = pre @ tk # post \<and> window_open pre (star_start t0)
         \<and> py_in star_bytes (fst (star_run pre (star_start t0)))))
   \<and> ((\<exists>cmds. wait_for_star t0 ticks = Some (False, cmds)) =
      (\<exists>pre tk post. ticks = pre @ tk # post \<and> window_open pre (star_start t0)
         \<and> \<not> py_in star_bytes (fst (star_run pre (star_start t0)))
         \<and> 10 \<le> clock tk - fst (snd (star_run pre (star_start t0)))))
   \<and> clean (fst (star_run passes (star_start t0)))
   \<and> (clean buf \<longrightarrow>
        (if ring_completed buf t
         then fst (star_body t (buf, lr, snt)) = butlast buf
            \<and> fst (snd (star_body t (buf, lr, snt))) = ring_clock t
         else fst (snd (star_body t (buf, lr, snt))) = lr))
   \<and> (ring_stream (rx_bytes ticks) \<longrightarrow>
        (\<forall>cmds. wait_for_star t0 ticks \<noteq> Some (True, cmds))
        \<and> ((\<exists>cmds. wait_for_star t0 ticks = Some (False, cmds)) =
             (\<exists>pre tk post. ticks = pre @ tk # post
                \<and> 10 \<le> clock tk - fst (snd (star_run pre (star_start t0))))))"
proof (intro conjI impI allI)
  show "(\<exists>cmds. wait_for_star t0 ticks = Some (True, cmds)) =
      (\<exists>pre tk post. ticks = pre @ tk # post \<and> window_open pre (star_start t0)
         \<and> py_in star_bytes (fst (star_run pre (star_start t0))))"
    by (rule wait_for_star_True)
  show "(\<exists>cmds. wait_for_star t0 ticks = Some (False, cmds)) =
      (\<exists>pre tk post. ticks = pre @ tk # post \<and> window_open pre (star_start t0)
         \<and> \<not> py_in star_bytes (fst (star_run pre (star_start t0)))
         \<and> 10 \<le> clock tk - fst (snd (star_run pre (star_start t0))))"
    by (rule wait_for_star_False)
  show "clean (fst (star_run passes (star_start t0)))"
    using clean_start by (rule star_run_clean)
next
  assume "clean buf"
  then show "if ring_completed buf t
         then fst (star_body t (buf, lr, snt)) = butlast buf
            \<and> fst (snd (star_body t (buf, lr, snt))) = ring_clock t
         else fst (snd (star_body t (buf, lr, snt))) = lr"
    using star_body_clean [of buf t lr snt] by simp
next
  fix cmds
  assume "ring_stream (rx_bytes ticks)"
  then show "wait_for_star t0 ticks \<noteq> Some (True, cmds)" by (rule rings_never_true)
next
  assume "ring_stream (rx_bytes ticks)"
  then show "(\<exists>cmds. wait_for_star t0 ticks = Some (False, cmds)) =
             (\<exists>pre tk post. ticks = pre @ tk # post
                \<and> 10 \<le> clock tk - fst (snd (star_run pre (star_start t0))))"
    by (rule rings_false_iff)
qed

text \<open>The star marker arrives within the window: true. Only a ring indicator arrives,
  2.5 seconds after the start: the loop test at 11 seconds still succeeds, that at 12.5
  seconds ends the loop, and the result is false.\<close>

theorem star_detected_within_window_witness:
  "wait_for_star 0 star_ticks = Some (True, [''AT+FCLASS=8'', ''AT+VIP'', ''AT+VLS=4'', ''ATH''])
   \<and> ring_stream (rx_bytes ring_ticks)
   \<and> wait_for_star 0 ring_ticks = Some (False, [''AT+FCLASS=8'', ''AT+VIP'', ''AT+VLS=4'', ''ATH''])
   \<and> wait_for_star 0 (take 5 ring_ticks) = None"
proof -
  have r: "ring_stream (rx_bytes ring_ticks)"
    by (simp add: rx_bytes_def ring_ticks_def)
  have f: "wait_for_star 0 ring_ticks = Some (False, [''AT+FCLASS=8'', ''AT+VIP'', ''AT+VLS=4'', ''ATH''])"
    by (simp add: star_defs ring_ticks_def)
  have n: "wait_for_star 0 (take 5 ring_ticks) = None"
    by (simp add: star_defs ring_ticks_def)
  from star_detected_within_window [of 0 ring_ticks] r f n star_ticks_run
  show ?thesis by simp
qed

end
